theory Spec2Isabelle
  imports Complex_Main "HOL-Library.Log_Nat"
begin

section \<open>JavaScript values\<close>

text \<open>
  The program is JavaScript. A number is a binary64 double; the model keeps the three
  non-finite doubles apart and writes a finite double as the real number it denotes.
  The result of an operation on finite numbers is the exact result rounded to the
  nearest double, ties to the even significand, as IEEE 754 prescribes.
  A string is a list of characters; a character is one code unit below 256, so of the
  line terminators only LF and CR, and of the white space only the characters below
  256, are characters of the model.
\<close>

datatype jsnum = Finite real | NaN | PosInfinity | NegInfinity

datatype jsval = JUndefined | JNull | JBool bool | JNum jsnum | JStr string

text \<open>ToBoolean: the falsy values are undefined, null, false, 0, NaN and the empty string.\<close>

fun truthy_num :: "jsnum \<Rightarrow> bool" where
  "truthy_num (Finite r) = (r \<noteq> 0)"
| "truthy_num NaN = False"
| "truthy_num PosInfinity = True"
| "truthy_num NegInfinity = True"

fun truthy :: "jsval \<Rightarrow> bool" where
  "truthy JUndefined = False"
| "truthy JNull = False"
| "truthy (JBool b) = b"
| "truthy (JNum n) = truthy_num n"
| "truthy (JStr s) = (s \<noteq> [])"

subsection \<open>Rounding to binary64\<close>

text \<open>
  The binade of a positive real \<open>x\<close>: the exponent \<open>e\<close> with \<open>2^e \<le> x < 2^(e+1)\<close>, read
  from the number of bits of the integer part of \<open>x\<close>, or of \<open>1 / x\<close> when \<open>x < 1\<close>.
\<close>

definition binade :: "real \<Rightarrow> int" where
  "binade x = (if 1 \<le> x then bitlen \<lfloor>x\<rfloor> - 1 else - bitlen (\<lceil>1 / x\<rceil> - 1))"

text \<open>\<open>x\<close> times \<open>2^e\<close>.\<close>

definition scale2 :: "real \<Rightarrow> int \<Rightarrow> real" where
  "scale2 x e = (if 0 \<le> e then x * 2 ^ nat e else x / 2 ^ nat (- e))"

text \<open>The nearest integer, a tie going to the even one.\<close>

definition roundHalfEven :: "real \<Rightarrow> int" where
  "roundHalfEven r =
     (let f = \<lfloor>r\<rfloor>; d = r - of_int f
      in if d < 1 / 2 then f
         else if 1 / 2 < d then f + 1
         else if even f then f else f + 1)"

text \<open>
  The double nearest to a real. A double has a significand of 53 bits and an exponent
  from -1022 to 1023; below \<open>2^-1022\<close> the doubles are the multiples of \<open>2^-1074\<close>. A value
  of \<open>2^1024\<close> or more, or one that rounds to \<open>2^1024\<close>, is an infinity.
\<close>

definition roundToDouble :: "real \<Rightarrow> jsnum" where
  "roundToDouble x =
     (if x = 0 then Finite 0
      else
        (let b = binade \<bar>x\<bar>
         in if 1024 \<le> b then (if 0 < x then PosInfinity else NegInfinity)
            else
              (let e = max b (- 1022);
                   n = roundHalfEven (scale2 \<bar>x\<bar> (52 - e))
               in if e = 1023 \<and> n = 2 ^ 53
                  then (if 0 < x then PosInfinity else NegInfinity)
                  else Finite (sgn x * scale2 (of_int n) (e - 52)))))"

text \<open>The operator \<open>*\<close> on numbers.\<close>

fun js_mul :: "jsnum \<Rightarrow> jsnum \<Rightarrow> jsnum" where
  "js_mul NaN y = NaN"
| "js_mul x NaN = NaN"
| "js_mul (Finite a) (Finite b) = roundToDouble (a * b)"
| "js_mul (Finite a) PosInfinity =
     (if a = 0 then NaN else if 0 < a then PosInfinity else NegInfinity)"
| "js_mul (Finite a) NegInfinity =
     (if a = 0 then NaN else if 0 < a then NegInfinity else PosInfinity)"
| "js_mul PosInfinity (Finite b) =
     (if b = 0 then NaN else if 0 < b then PosInfinity else NegInfinity)"
| "js_mul NegInfinity (Finite b) =
     (if b = 0 then NaN else if 0 < b then NegInfinity else PosInfinity)"
| "js_mul PosInfinity PosInfinity = PosInfinity"
| "js_mul PosInfinity NegInfinity = NegInfinity"
| "js_mul NegInfinity PosInfinity = NegInfinity"
| "js_mul NegInfinity NegInfinity = PosInfinity"

text \<open>The operators \<open>>=\<close> and \<open><\<close> on numbers: both are false when an operand is NaN.\<close>

fun js_ge :: "jsnum \<Rightarrow> jsnum \<Rightarrow> bool" where
  "js_ge NaN y = False"
| "js_ge x NaN = False"
| "js_ge PosInfinity y = True"
| "js_ge x NegInfinity = True"
| "js_ge (Finite a) (Finite b) = (b \<le> a)"
| "js_ge (Finite a) PosInfinity = False"
| "js_ge NegInfinity y = False"

fun js_lt :: "jsnum \<Rightarrow> jsnum \<Rightarrow> bool" where
  "js_lt NaN y = False"
| "js_lt x NaN = False"
| "js_lt PosInfinity y = False"
| "js_lt x NegInfinity = False"
| "js_lt (Finite a) (Finite b) = (a < b)"
| "js_lt (Finite a) PosInfinity = True"
| "js_lt NegInfinity y = True"

subsection \<open>String to number\<close>

text \<open>
  The conversion of a string to a number (StringToNumber): white space is trimmed, the
  empty string is 0, and anything that is not a numeric literal as a whole is NaN. The
  value of a literal is its mathematical value rounded to the nearest double, whatever
  the number of its digits, as the engine the program runs on does.
\<close>

definition isStrWhiteSpaceChar :: "char \<Rightarrow> bool" where
  "isStrWhiteSpaceChar c =
     (c = CHR 0x09 \<or> c = CHR 0x0A \<or> c = CHR 0x0B \<or> c = CHR 0x0C \<or> c = CHR 0x0D
      \<or> c = CHR 0x20 \<or> c = CHR 0xA0)"

definition trimString :: "string \<Rightarrow> string" where
  "trimString s = rev (dropWhile isStrWhiteSpaceChar (rev (dropWhile isStrWhiteSpaceChar s)))"

definition digitTable :: "(char \<times> int) list" where
  "digitTable =
     [(CHR ''0'', 0), (CHR ''1'', 1), (CHR ''2'', 2), (CHR ''3'', 3), (CHR ''4'', 4),
      (CHR ''5'', 5), (CHR ''6'', 6), (CHR ''7'', 7), (CHR ''8'', 8), (CHR ''9'', 9),
      (CHR ''a'', 10), (CHR ''b'', 11), (CHR ''c'', 12), (CHR ''d'', 13), (CHR ''e'', 14),
      (CHR ''f'', 15), (CHR ''A'', 10), (CHR ''B'', 11), (CHR ''C'', 12), (CHR ''D'', 13),
      (CHR ''E'', 14), (CHR ''F'', 15)]"

text \<open>The value of a character as a digit of the given base, if it is one.\<close>

definition digitValue :: "int \<Rightarrow> char \<Rightarrow> int option" where
  "digitValue base c =
     (case map_of digitTable c of
        None \<Rightarrow> None
      | Some d \<Rightarrow> if d < base then Some d else None)"

definition isDecimalDigit :: "char \<Rightarrow> bool" where
  "isDecimalDigit c = (digitValue 10 c \<noteq> None)"

text \<open>The value of a string of digits of the given base; None when a character is no digit.\<close>

fun digitsValue :: "int \<Rightarrow> int \<Rightarrow> string \<Rightarrow> int option" where
  "digitsValue base acc [] = Some acc"
| "digitsValue base acc (c # cs) =
     (case digitValue base c of
        None \<Rightarrow> None
      | Some d \<Rightarrow> digitsValue base (acc * base + d) cs)"

text \<open>A non-empty string of digits.\<close>

definition digitString :: "int \<Rightarrow> string \<Rightarrow> int option" where
  "digitString base s = (if s = [] then None else digitsValue base 0 s)"

text \<open>SignedInteger: decimal digits with an optional sign.\<close>

definition signedInteger :: "string \<Rightarrow> int option" where
  "signedInteger s =
     (case s of
        [] \<Rightarrow> None
      | c # ds \<Rightarrow>
          if c = CHR ''+'' then digitString 10 ds
          else if c = CHR ''-'' then map_option uminus (digitString 10 ds)
          else digitString 10 s)"

text \<open>ExponentPart, or nothing: the power of ten the literal is scaled by.\<close>

definition exponentPart :: "string \<Rightarrow> int option" where
  "exponentPart s =
     (case s of
        [] \<Rightarrow> Some 0
      | c # ds \<Rightarrow> if c = CHR ''e'' \<or> c = CHR ''E'' then signedInteger ds else None)"

definition scale10 :: "real \<Rightarrow> int \<Rightarrow> real" where
  "scale10 m e = (if 0 \<le> e then m * 10 ^ nat e else m / 10 ^ nat (- e))"

text \<open>
  StrUnsignedDecimalLiteral without \<open>Infinity\<close>: digits, an optional fraction and an
  optional exponent, with a digit before or after the point.
\<close>

definition unsignedDecimal :: "string \<Rightarrow> real option" where
  "unsignedDecimal s =
     (let ip = takeWhile isDecimalDigit s;
          r1 = dropWhile isDecimalDigit s;
          dot = (r1 \<noteq> [] \<and> hd r1 = CHR ''.'');
          fp = (if dot then takeWhile isDecimalDigit (tl r1) else []);
          r2 = (if dot then dropWhile isDecimalDigit (tl r1) else r1)
      in if ip = [] \<and> fp = [] then None
         else
           (case (digitsValue 10 0 ip, digitsValue 10 0 fp, exponentPart r2) of
              (Some i, Some f, Some e) \<Rightarrow>
                Some (scale10 (real_of_int i + real_of_int f / 10 ^ length fp) e)
            | _ \<Rightarrow> None))"

definition unsignedLiteral :: "string \<Rightarrow> jsnum option" where
  "unsignedLiteral s =
     (if s = ''Infinity'' then Some PosInfinity
      else map_option roundToDouble (unsignedDecimal s))"

definition negate :: "jsnum \<Rightarrow> jsnum" where
  "negate n =
     (case n of
        Finite r \<Rightarrow> Finite (- r)
      | NaN \<Rightarrow> NaN
      | PosInfinity \<Rightarrow> NegInfinity
      | NegInfinity \<Rightarrow> PosInfinity)"

text \<open>StrDecimalLiteral: an unsigned literal with an optional sign.\<close>

definition strDecimalLiteral :: "string \<Rightarrow> jsnum option" where
  "strDecimalLiteral s =
     (case s of
        [] \<Rightarrow> None
      | c # r \<Rightarrow>
          if c = CHR ''+'' then unsignedLiteral r
          else if c = CHR ''-'' then map_option negate (unsignedLiteral r)
          else unsignedLiteral s)"

text \<open>NonDecimalIntegerLiteral: \<open>0x\<close>, \<open>0o\<close> or \<open>0b\<close> and digits of that base.\<close>

definition radixOf :: "char \<Rightarrow> int option" where
  "radixOf c =
     (if c = CHR ''x'' \<or> c = CHR ''X'' then Some 16
      else if c = CHR ''o'' \<or> c = CHR ''O'' then Some 8
      else if c = CHR ''b'' \<or> c = CHR ''B'' then Some 2
      else None)"

definition strNumericLiteral :: "string \<Rightarrow> jsnum option" where
  "strNumericLiteral s =
     (case s of
        z # p # ds \<Rightarrow>
          (case (if z = CHR ''0'' then radixOf p else None) of
             Some base \<Rightarrow> map_option (\<lambda>n. roundToDouble (real_of_int n)) (digitString base ds)
           | None \<Rightarrow> strDecimalLiteral s)
      | _ \<Rightarrow> strDecimalLiteral s)"

definition StringToNumber :: "string \<Rightarrow> jsnum" where
  "StringToNumber s =
     (let t = trimString s
      in if t = [] then Finite 0
         else (case strNumericLiteral t of None \<Rightarrow> NaN | Some n \<Rightarrow> n))"

text \<open>ToNumber, which \<open>Number(v)\<close> and the arithmetic operators apply to their operands.\<close>

fun ToNumber :: "jsval \<Rightarrow> jsnum" where
  "ToNumber JUndefined = NaN"
| "ToNumber JNull = Finite 0"
| "ToNumber (JBool b) = Finite (if b then 1 else 0)"
| "ToNumber (JNum n) = n"
| "ToNumber (JStr s) = StringToNumber s"

section \<open>Errors\<close>

text \<open>
  What the program can throw: the runtime's TypeError (calling or reading a property of
  something that has none), the \<open>Error\<close> objects the validators create with their
  message, and the failures of reading and parsing the configuration file.
\<close>

datatype error = TypeError | Error string | SystemError | SyntaxError

section \<open>Strings\<close>

text \<open>
  \<open>s.split(sep)\<close> for a separator of one character; the empty string splits into the
  list of one empty string.
\<close>

fun splitOn :: "char \<Rightarrow> string \<Rightarrow> string list" where
  "splitOn sep [] = [[]]"
| "splitOn sep (c # cs) =
     (if c = sep then [] # splitOn sep cs
      else (case splitOn sep cs of
              [] \<Rightarrow> [[c]]
            | t # ts \<Rightarrow> (c # t) # ts))"

text \<open>
  \<open>score.match(/(.+):(.+)/)\<close>. The dot matches every character but a line terminator,
  both groups are greedy, and the match is the first the backtracking search finds: the
  leftmost start, then the longest first group after which a colon and at least one
  more character follow. The result is the pair of the two groups, \<open>result[1]\<close> and
  \<open>result[2]\<close>, or None, the \<open>null\<close> of a failed match.
\<close>

definition isLineTerminator :: "char \<Rightarrow> bool" where
  "isLineTerminator c = (c = CHR 0x0A \<or> c = CHR 0x0D)"

text \<open>The longest prefix the pattern \<open>.*\<close> matches.\<close>

definition dots :: "string \<Rightarrow> string" where
  "dots s = takeWhile (\<lambda>c. \<not> isLineTerminator c) s"

text \<open>The first group with \<open>k\<close> characters, then \<open>k - 1\<close>, down to one.\<close>

fun tryGroup1 :: "string \<Rightarrow> nat \<Rightarrow> (string \<times> string) option" where
  "tryGroup1 s 0 = None"
| "tryGroup1 s (Suc k) =
     (case drop (Suc k) s of
        [] \<Rightarrow> tryGroup1 s k
      | c # rest \<Rightarrow>
          if c = CHR '':'' \<and> dots rest \<noteq> [] then Some (take (Suc k) s, dots rest)
          else tryGroup1 s k)"

text \<open>The start positions from left to right.\<close>

fun matchFrom :: "string \<Rightarrow> (string \<times> string) option" where
  "matchFrom [] = None"
| "matchFrom (c # cs) =
     (case tryGroup1 (c # cs) (length (dots (c # cs))) of
        Some r \<Rightarrow> Some r
      | None \<Rightarrow> matchFrom cs)"

definition matchScore :: "string \<Rightarrow> (string \<times> string) option" where
  "matchScore score = matchFrom score"

section \<open>Objects\<close>

text \<open>
  An object whose keys are data is the list of its own properties in the order
  \<open>Object.keys\<close> enumerates them. Reading \<open>obj[key]\<close> finds an own property, or else a
  member of \<open>Object.prototype\<close> (a function, or for \<open>__proto__\<close> the prototype), or
  else \<open>undefined\<close>.
\<close>

datatype 'a lookup = Own 'a | Inherited | Undefined

definition objectPrototypeKeys :: "string list" where
  "objectPrototypeKeys =
     [''constructor'', ''__defineGetter__'', ''__defineSetter__'', ''hasOwnProperty'',
      ''__lookupGetter__'', ''__lookupSetter__'', ''isPrototypeOf'', ''propertyIsEnumerable'',
      ''toString'', ''valueOf'', ''__proto__'', ''toLocaleString'']"

definition Object_keys :: "(string \<times> 'a) list \<Rightarrow> string list" where
  "Object_keys obj = map fst obj"

definition getProp :: "(string \<times> 'a) list \<Rightarrow> string \<Rightarrow> 'a lookup" where
  "getProp obj key =
     (case map_of obj key of
        Some v \<Rightarrow> Own v
      | None \<Rightarrow> if key \<in> set objectPrototypeKeys then Inherited else Undefined)"

text \<open>
  An array index is the canonical decimal string of an integer below \<open>2^32 - 1\<close>; own
  properties with such keys are enumerated first, in ascending order.
\<close>

definition arrayIndex :: "string \<Rightarrow> int option" where
  "arrayIndex key =
     (case digitString 10 key of
        None \<Rightarrow> None
      | Some n \<Rightarrow>
          if (key = ''0'' \<or> hd key \<noteq> CHR ''0'') \<and> n < 4294967295 then Some n else None)"

fun insertIndexed :: "int \<Rightarrow> string \<Rightarrow> 'a \<Rightarrow> (string \<times> 'a) list \<Rightarrow> (string \<times> 'a) list" where
  "insertIndexed n key v [] = [(key, v)]"
| "insertIndexed n key v (p # ps) =
     (case arrayIndex (fst p) of
        None \<Rightarrow> (key, v) # p # ps
      | Some m \<Rightarrow> if m < n then p # insertIndexed n key v ps else (key, v) # p # ps)"

fun replaceOwn :: "string \<Rightarrow> 'a \<Rightarrow> (string \<times> 'a) list \<Rightarrow> (string \<times> 'a) list" where
  "replaceOwn key v [] = []"
| "replaceOwn key v (p # ps) =
     (if fst p = key then (key, v) # ps else p # replaceOwn key v ps)"

text \<open>
  \<open>obj[key] = v\<close> for a number \<open>v\<close>: an own property keeps its place, a new one is
  added, and the key \<open>__proto__\<close> reaches the setter of \<open>Object.prototype\<close>, which
  ignores a value that is no object.
\<close>

definition setProp :: "(string \<times> jsnum) list \<Rightarrow> string \<Rightarrow> jsnum \<Rightarrow> (string \<times> jsnum) list" where
  "setProp obj key v =
     (if key = ''__proto__'' then obj
      else if map_of obj key \<noteq> None then replaceOwn key v obj
      else (case arrayIndex key of
              None \<Rightarrow> obj @ [(key, v)]
            | Some n \<Rightarrow> insertIndexed n key v obj))"

section \<open>Options Builder\<close>

text \<open>
  The options object. A field is None when the object has no such key (reading it
  gives \<open>undefined\<close>).
\<close>

record options =
  urls :: "jsval list option"
  onlyAudits :: "string list option"
  scores :: "(string \<times> jsnum) list option"
  showAudits :: "bool option"
  extendedInfo :: "bool option"
  allAudits :: "bool option"

text \<open>The parsed command line: a flag that was not given is \<open>undefined\<close>.\<close>

record argv =
  argv_config :: jsval
  argv_url :: jsval
  argv_audits :: jsval
  argv_scores :: jsval
  argv_showaudits :: jsval

definition emptyOptions :: options where
  "emptyOptions =
     \<lparr>urls = None, onlyAudits = None, scores = None, showAudits = None,
      extendedInfo = None, allAudits = None\<rparr>"

text \<open>\<open>v.split(',')\<close> on a truthy value: only a string has the method.\<close>

definition splitCommas :: "jsval \<Rightarrow> error + string list" where
  "splitCommas v = (case v of JStr s \<Rightarrow> Inr (splitOn (CHR '','') s) | _ \<Rightarrow> Inl TypeError)"

text \<open>The loop over the tokens of \<open>--scores\<close>; \<open>result[1]\<close> of a failed match throws.\<close>

fun scoresForEach :: "string list \<Rightarrow> (string \<times> jsnum) list \<Rightarrow> error + (string \<times> jsnum) list" where
  "scoresForEach [] obj = Inr obj"
| "scoresForEach (score # rest) obj =
     (case matchScore score of
        None \<Rightarrow> Inl TypeError
      | Some (categoryId, categoryMinScore) \<Rightarrow>
          scoresForEach rest
            (setProp obj categoryId (js_mul (ToNumber (JStr categoryMinScore)) (Finite 1))))"

text \<open>The branch of \<open>getConfig\<close> without a configuration file.\<close>

definition flagOptions :: "argv \<Rightarrow> error + options" where
  "flagOptions a =
     (let o1 = emptyOptions\<lparr>urls := Some [argv_url a]\<rparr>
      in case (if truthy (argv_audits a)
               then (case splitCommas (argv_audits a) of
                       Inl e \<Rightarrow> Inl e
                     | Inr ids \<Rightarrow> Inr (o1\<lparr>onlyAudits := Some ids\<rparr>))
               else Inr o1) of
           Inl e \<Rightarrow> Inl e
         | Inr o2 \<Rightarrow>
             if truthy (argv_scores a)
             then (case splitCommas (argv_scores a) of
                     Inl e \<Rightarrow> Inl e
                   | Inr tokens \<Rightarrow>
                       (case scoresForEach tokens [] of
                          Inl e \<Rightarrow> Inl e
                        | Inr sc \<Rightarrow> Inr (o2\<lparr>scores := Some sc\<rparr>)))
             else Inr o2)"

text \<open>
  \<open>getConfig\<close>. Reading and parsing the file (\<open>fs.readFileSync\<close>, \<open>JSON.parse\<close>) is the
  parameter \<open>readConfig\<close>: it fails, or gives the options the file holds.
\<close>

definition getConfig :: "(jsval \<Rightarrow> error + options) \<Rightarrow> argv \<Rightarrow> error + options" where
  "getConfig readConfig a =
     (case (if truthy (argv_config a) then readConfig (argv_config a) else flagOptions a) of
        Inl e \<Rightarrow> Inl e
      | Inr opts \<Rightarrow>
          Inr (if truthy (argv_showaudits a) then opts\<lparr>showAudits := Some True\<rparr> else opts))"

text \<open>A default is stored only under a key the options do not have.\<close>

definition orDefault :: "'a \<Rightarrow> 'a option \<Rightarrow> 'a option" where
  "orDefault d x = (case x of None \<Rightarrow> Some d | Some v \<Rightarrow> Some v)"

definition prepareOptions :: "(jsval \<Rightarrow> error + options) \<Rightarrow> argv \<Rightarrow> error + options" where
  "prepareOptions readConfig a =
     (case getConfig readConfig a of
        Inl e \<Rightarrow> Inl e
      | Inr opts \<Rightarrow>
          Inr (opts\<lparr>urls := orDefault [] (urls opts),
                    extendedInfo := orDefault False (extendedInfo opts),
                    allAudits := orDefault False (allAudits opts),
                    onlyAudits := orDefault [] (onlyAudits opts)\<rparr>))"

section \<open>The report\<close>

text \<open>
  The report of the audit engine: the categories by id and the audits by id. The fields
  of an audit are kept as values, so that the object found under the name of a member of
  \<open>Object.prototype\<close>, which has none of them, is an audit whose fields are all
  \<open>undefined\<close>.
\<close>

record auditRef =
  auditRef_id :: string

record category =
  category_title :: string
  category_score :: jsval
  auditRefs :: "auditRef list"

record audit =
  audit_id :: jsval
  audit_title :: jsval
  audit_description :: jsval
  audit_score :: jsval
  scoreDisplayMode :: jsval

record results =
  categories :: "(string \<times> category) list"
  audits :: "(string \<times> audit) list"

text \<open>The truth value of an optional boolean field of the options.\<close>

definition truthyFlag :: "bool option \<Rightarrow> bool" where
  "truthyFlag f = (f = Some True)"

section \<open>Report Formatter and Validators\<close>

text \<open>
  The callback of \<open>filterAudits\<close>. Reading \<open>length\<close> of \<open>onlyAudits\<close> throws when the
  options have no such key; the read happens only when \<open>allAudits\<close> is falsy.
\<close>

definition filterAuditsCallback :: "options \<Rightarrow> auditRef \<Rightarrow> error + bool" where
  "filterAuditsCallback opts audit =
     (if \<not> truthyFlag (allAudits opts)
      then (case onlyAudits opts of
              None \<Rightarrow> Inl TypeError
            | Some ids \<Rightarrow>
                if length ids > 0
                then (if auditRef_id audit \<in> set ids then Inr True else Inr False)
                else Inr True)
      else Inr True)"

text \<open>\<open>Array.prototype.filter\<close> with a callback that may throw.\<close>

fun filterArray :: "('a \<Rightarrow> error + bool) \<Rightarrow> 'a list \<Rightarrow> error + 'a list" where
  "filterArray f [] = Inr []"
| "filterArray f (x # xs) =
     (case f x of
        Inl e \<Rightarrow> Inl e
      | Inr keep \<Rightarrow>
          (case filterArray f xs of
             Inl e \<Rightarrow> Inl e
           | Inr ys \<Rightarrow> Inr (if keep then x # ys else ys)))"

definition filterAudits :: "category \<Rightarrow> options \<Rightarrow> error + auditRef list" where
  "filterAudits category opts = filterArray (filterAuditsCallback opts) (auditRefs category)"

text \<open>
  \<open>Object.keys(obj).forEach(key => ... obj[key] ...)\<close> visits the own properties of
  \<open>obj\<close> in order: such a loop runs over the list of the properties.
\<close>

text \<open>The inner loop of \<open>validateAudits\<close>, over the categories.\<close>

fun validAuditLoop :: "string \<Rightarrow> (string \<times> category) list \<Rightarrow> bool \<Rightarrow> bool" where
  "validAuditLoop auditId [] validAudit = validAudit"
| "validAuditLoop auditId ((categoryId, category) # rest) validAudit =
     validAuditLoop auditId rest
       (if find (\<lambda>auditRef. auditRef_id auditRef = auditId) (auditRefs category) \<noteq> None
        then True else validAudit)"

text \<open>The outer loop of \<open>validateAudits\<close>, over \<open>onlyAudits\<close>.\<close>

fun validateAuditsLoop :: "(string \<times> category) list \<Rightarrow> string list \<Rightarrow> error + unit" where
  "validateAuditsLoop cats [] = Inr ()"
| "validateAuditsLoop cats (auditId # rest) =
     (if \<not> validAuditLoop auditId cats False
      then Inl (Error (''Audit <'' @ auditId @ ''> is unknown''))
      else validateAuditsLoop cats rest)"

definition validateAudits :: "(string \<times> category) list \<Rightarrow> options \<Rightarrow> error + unit" where
  "validateAudits cats opts =
     (case onlyAudits opts of
        None \<Rightarrow> Inr ()
      | Some ids \<Rightarrow> validateAuditsLoop cats ids)"

text \<open>
  The loop of \<open>validateCategories\<close>, over the keys of \<open>scores\<close>: \<open>categories[categoryId]\<close>
  is falsy only when it is \<open>undefined\<close> (a category is an object, an inherited member a
  function or an object).
\<close>

fun validateCategoriesLoop :: "(string \<times> category) list \<Rightarrow> string list \<Rightarrow> error + unit" where
  "validateCategoriesLoop cats [] = Inr ()"
| "validateCategoriesLoop cats (categoryId # rest) =
     (case getProp cats categoryId of
        Undefined \<Rightarrow> Inl (Error (''Category <'' @ categoryId @ ''> is unknown''))
      | Own category \<Rightarrow> validateCategoriesLoop cats rest
      | Inherited \<Rightarrow> validateCategoriesLoop cats rest)"

definition validateCategories :: "(string \<times> category) list \<Rightarrow> options \<Rightarrow> error + unit" where
  "validateCategories cats opts =
     (case scores opts of
        None \<Rightarrow> Inr ()
      | Some sc \<Rightarrow> validateCategoriesLoop cats (Object_keys sc))"

text \<open>The status of an audit: 0 not passed, 1 passed, 2 not applicable.\<close>

definition auditPassedStatus :: "audit \<Rightarrow> nat" where
  "auditPassedStatus audit =
     (if scoreDisplayMode audit = JStr ''manual''
         \<or> scoreDisplayMode audit = JStr ''not-applicable''
         \<or> scoreDisplayMode audit = JStr ''informative'' then 2
      else if scoreDisplayMode audit = JStr ''error'' then 0
      else if js_ge (ToNumber (audit_score audit)) (Finite 0.75) then 1 else 0)"

section \<open>Scan Orchestrator\<close>

text \<open>
  What \<open>scan\<close> prints is the list of its calls to the print helpers. Colours, the text of
  the glyphs and the layout and sorting of a table belong to the libraries; a table is the
  list of the rows pushed to it.
\<close>

datatype glyph = Tick | Cross | QuestionMarkPrefix

record scoreRow =
  row_result :: glyph
  row_category :: jsval
  row_minScore :: jsnum
  row_score :: jsnum

record auditRow =
  row_audit :: jsval
  row_glyph :: glyph

datatype event =
    Headline string
  | SubHeadline jsval
  | LogUnderline jsval
  | LogDescription bool jsval
  | Linebreak
  | LogScoresTable "scoreRow list"
  | LogAuditsTable "auditRow list"
  | LogAuditResult glyph jsval
  | PrettyJson audit

definition undefinedAudit :: audit where
  "undefinedAudit =
     \<lparr>audit_id = JUndefined, audit_title = JUndefined, audit_description = JUndefined,
      audit_score = JUndefined, scoreDisplayMode = JUndefined\<rparr>"

text \<open>\<open>results.audits[auditRef.id]\<close>, as far as its fields can be read: None is \<open>undefined\<close>.\<close>

definition auditOf :: "(string \<times> audit) list \<Rightarrow> string \<Rightarrow> audit option" where
  "auditOf as key =
     (case getProp as key of
        Own a \<Rightarrow> Some a
      | Inherited \<Rightarrow> Some undefinedAudit
      | Undefined \<Rightarrow> None)"

text \<open>The \<open>showAudits\<close> view: the audits of one category, then all categories.\<close>

fun showAuditRefs :: "(string \<times> audit) list \<Rightarrow> auditRef list \<Rightarrow> event list \<Rightarrow> error + event list" where
  "showAuditRefs as [] out = Inr out"
| "showAuditRefs as (auditRef # rest) out =
     (case auditOf as (auditRef_id auditRef) of
        None \<Rightarrow> Inl TypeError
      | Some audit \<Rightarrow>
          showAuditRefs as rest
            (out @ [SubHeadline (audit_id audit), LogUnderline (audit_title audit),
                    LogDescription (scoreDisplayMode audit = JStr ''manual'')
                      (audit_description audit)]))"

fun showCategories :: "(string \<times> audit) list \<Rightarrow> (string \<times> category) list \<Rightarrow> event list \<Rightarrow> error + event list" where
  "showCategories as [] out = Inr out"
| "showCategories as ((categoryId, category) # rest) out =
     (case showAuditRefs as (auditRefs category) (out @ [Headline (category_title category)]) of
        Inl e \<Rightarrow> Inl e
      | Inr out' \<Rightarrow> showCategories as rest out')"

text \<open>
  \<open>results.categories[categoryId]\<close> for a key of \<open>scores\<close>, as far as the scores section
  reads it: the title and the score, or None when it is \<open>undefined\<close>.
\<close>

definition categoryFields :: "category lookup \<Rightarrow> (jsval \<times> jsval) option" where
  "categoryFields p =
     (case p of
        Own c \<Rightarrow> Some (JStr (category_title c), category_score c)
      | Inherited \<Rightarrow> Some (JUndefined, JUndefined)
      | Undefined \<Rightarrow> None)"

text \<open>The loop of the scores section, over \<open>scores\<close>, with \<open>tableData\<close> and \<open>hasFailures\<close>.\<close>

fun checkScores :: "(string \<times> category) list \<Rightarrow> (string \<times> jsnum) list \<Rightarrow> scoreRow list \<times> bool \<Rightarrow> error + scoreRow list \<times> bool" where
  "checkScores cats [] st = Inr st"
| "checkScores cats ((categoryId, minScore) # rest) (tableData, hasFailures) =
     (case categoryFields (getProp cats categoryId) of
        None \<Rightarrow> Inl TypeError
      | Some (title, sc) \<Rightarrow>
          (let score = js_mul (ToNumber sc) (Finite 100)
           in if truthy_num minScore
              then (let passed = js_ge score minScore
                    in checkScores cats rest
                         (tableData @
                            [\<lparr>row_result = (if passed then Tick else Cross), row_category = title,
                              row_minScore = minScore, row_score = score\<rparr>],
                          if \<not> passed then True else hasFailures))
              else checkScores cats rest (tableData, hasFailures)))"

text \<open>The loop over the filtered audits of one category.\<close>

fun checkAudits :: "(string \<times> audit) list \<Rightarrow> options \<Rightarrow> auditRef list \<Rightarrow> event list \<times> auditRow list \<times> bool \<Rightarrow> error + event list \<times> auditRow list \<times> bool" where
  "checkAudits as opts [] st = Inr st"
| "checkAudits as opts (auditRef # rest) (out, tableData, hasFailures) =
     (case auditOf as (auditRef_id auditRef) of
        None \<Rightarrow> Inl TypeError
      | Some audit \<Rightarrow>
          (let passedStatus = auditPassedStatus audit;
               result = (if passedStatus = 2 then QuestionMarkPrefix
                         else if passedStatus = 1 then Tick else Cross);
               hasFailure = (passedStatus \<noteq> 2 \<and> passedStatus \<noteq> 1)
           in if hasFailure \<or> truthyFlag (extendedInfo opts)
              then checkAudits as opts rest
                     (out @ [LogAuditResult result (audit_id audit), PrettyJson audit,
                             Linebreak, Linebreak],
                      tableData, if hasFailure then True else hasFailures)
              else checkAudits as opts rest
                     (out, tableData @ [\<lparr>row_audit = audit_id audit, row_glyph = result\<rparr>],
                      hasFailures)))"

text \<open>The loop of the audits section, over the categories.\<close>

fun checkCategories :: "(string \<times> audit) list \<Rightarrow> options \<Rightarrow> (string \<times> category) list \<Rightarrow> event list \<times> bool \<Rightarrow> error + event list \<times> bool" where
  "checkCategories as opts [] st = Inr st"
| "checkCategories as opts ((categoryId, category) # rest) (out, hasFailures) =
     (case filterAudits category opts of
        Inl e \<Rightarrow> Inl e
      | Inr refs \<Rightarrow>
          if length refs > 0
          then (case checkAudits as opts refs
                       (out @ [SubHeadline (JStr (category_title category))], [], hasFailures) of
                  Inl e \<Rightarrow> Inl e
                | Inr (out', tableData, hasFailures') \<Rightarrow>
                    checkCategories as opts rest
                      (out' @ [Linebreak, LogAuditsTable tableData], hasFailures'))
          else checkCategories as opts rest (out, hasFailures))"

text \<open>The scores section: nothing when the options have no \<open>scores\<close>.\<close>

definition scoresSection :: "(string \<times> category) list \<Rightarrow> options \<Rightarrow> error + event list \<times> bool" where
  "scoresSection cats opts =
     (case scores opts of
        None \<Rightarrow> Inr ([], False)
      | Some sc \<Rightarrow>
          (case checkScores cats sc ([], False) of
             Inl e \<Rightarrow> Inl e
           | Inr (tableData, hasFailures) \<Rightarrow>
               Inr ([Headline ''scores'', Linebreak, LogScoresTable tableData], hasFailures)))"

text \<open>
  \<open>scan\<close>, from the report on: \<open>results\<close> is what \<open>run(url)\<close> gave. The result is what was
  printed and the flag \<open>hasFailures\<close>, or the error thrown.
\<close>

definition scan :: "results \<Rightarrow> options \<Rightarrow> error + event list \<times> bool" where
  "scan res opts =
     (if truthyFlag (showAudits opts)
      then (case showCategories (audits res) (categories res) [] of
              Inl e \<Rightarrow> Inl e
            | Inr out \<Rightarrow> Inr (out, False))
      else (case validateCategories (categories res) opts of
              Inl e \<Rightarrow> Inl e
            | Inr u \<Rightarrow>
                (case validateAudits (categories res) opts of
                   Inl e \<Rightarrow> Inl e
                 | Inr u' \<Rightarrow>
                     (case scoresSection (categories res) opts of
                        Inl e \<Rightarrow> Inl e
                      | Inr (out, hasFailures) \<Rightarrow>
                          checkCategories (audits res) opts (categories res)
                            (out @ [Headline ''audits''], hasFailures)))))"

section \<open>Rounding: the doubles are fixed points\<close>

lemma powi_add: "(2::real) powi i * 2 powi j = 2 powi (i + j)"
  by (simp add: power_int_add)

lemma powi_add': "i + j = k \<Longrightarrow> (2::real) powi i * 2 powi j = 2 powi k"
  using powi_add [of i j] by simp

lemma powi_pos: "0 < (2::real) powi i"
  by simp

lemma powi_mono: "i \<le> j \<Longrightarrow> (2::real) powi i \<le> 2 powi j"
  by (rule power_int_increasing) simp_all

lemma powi_strict_mono: "i < j \<Longrightarrow> (2::real) powi i < 2 powi j"
  by (rule power_int_strict_increasing) simp_all

lemma powi_nat: "0 \<le> e \<Longrightarrow> (2::real) powi e = 2 ^ nat e"
  by (rule power_int_nonneg_exp)

lemma scale2_powi: "scale2 x e = x * 2 powi e"
proof (cases "0 \<le> e")
  case True
  then show ?thesis by (simp add: scale2_def powi_nat)
next
  case False
  then have "(2::real) powi (- e) = 2 ^ nat (- e)" by (intro powi_nat) simp
  then have "(2::real) powi e = inverse (2 ^ nat (- e))"
    using power_int_minus [of "2::real" "- e"] by simp
  then show ?thesis using False by (simp add: scale2_def divide_inverse)
qed

lemma binade_bounds:
  assumes "0 < x"
  shows "2 powi (binade x) \<le> x \<and> x < 2 powi (binade x + 1)"
proof (cases "1 \<le> x")
  case True
  define n where "n = \<lfloor>x\<rfloor>"
  define k where "k = bitlen n"
  have n: "0 < n" using True by (simp add: n_def)
  have b: "2 ^ nat (k - 1) \<le> n \<and> n < 2 ^ nat k"
    unfolding k_def using n by (rule bitlen_bounds)
  have k: "1 \<le> k"
  proof (rule ccontr)
    assume "\<not> 1 \<le> k"
    then have "nat k = 0" by simp
    then show False using b n by simp
  qed
  have e: "binade x = k - 1" using True by (simp add: binade_def k_def n_def)
  have p1: "(2::real) powi (k - 1) = 2 ^ nat (k - 1)" using k by (intro powi_nat) simp
  have p2: "(2::real) powi k = 2 ^ nat k" using k by (intro powi_nat) simp
  have "real_of_int (2 ^ nat (k - 1)) \<le> real_of_int n"
    using b by (simp only: of_int_le_iff)
  then have "(2::real) ^ nat (k - 1) \<le> real_of_int n" by simp
  moreover have "real_of_int n \<le> x" by (simp add: n_def)
  ultimately have lo: "2 powi (k - 1) \<le> x" using p1 by linarith
  have "n + 1 \<le> 2 ^ nat k" using b by simp
  then have "real_of_int (n + 1) \<le> real_of_int (2 ^ nat k)" by (simp only: of_int_le_iff)
  then have "real_of_int n + 1 \<le> 2 ^ nat k" by simp
  moreover have "x < real_of_int n + 1" by (simp add: n_def)
  ultimately have hi: "x < 2 powi k" using p2 by linarith
  show ?thesis using lo hi e by simp
next
  case False
  define y where "y = 1 / x"
  define m where "m = \<lceil>y\<rceil>"
  define k where "k = bitlen (m - 1)"
  have y1: "1 < y" using False assms by (simp add: y_def)
  then have m2: "2 \<le> m" unfolding m_def by (simp add: le_ceiling_iff)
  then have m1: "0 < m - 1" by simp
  have b: "2 ^ nat (k - 1) \<le> m - 1 \<and> m - 1 < 2 ^ nat k"
    unfolding k_def using m1 by (rule bitlen_bounds)
  have k: "1 \<le> k"
  proof (rule ccontr)
    assume "\<not> 1 \<le> k"
    then have "nat k = 0" by simp
    then show False using b m1 by simp
  qed
  have e: "binade x = - k" using False by (simp add: binade_def k_def m_def y_def)
  have p1: "(2::real) powi (k - 1) = 2 ^ nat (k - 1)" using k by (intro powi_nat) simp
  have p2: "(2::real) powi k = 2 ^ nat k" using k by (intro powi_nat) simp
  have "m \<le> 2 ^ nat k" using b by simp
  then have "real_of_int m \<le> real_of_int (2 ^ nat k)" by (simp only: of_int_le_iff)
  then have "real_of_int m \<le> 2 ^ nat k" by simp
  moreover have "y \<le> real_of_int m" by (simp add: m_def)
  ultimately have "y \<le> 2 powi k" using p2 by linarith
  then have "1 / x \<le> 2 powi k" by (simp add: y_def)
  then have "1 \<le> 2 powi k * x" using assms by (simp add: field_simps)
  then have "2 powi (- k) * 1 \<le> 2 powi (- k) * (2 powi k * x)"
    by (intro mult_left_mono) simp_all
  then have lo: "2 powi (- k) \<le> x"
    by (simp add: powi_add flip: mult.assoc)
  have "real_of_int (2 ^ nat (k - 1)) \<le> real_of_int (m - 1)"
    using b by (simp only: of_int_le_iff)
  then have "(2::real) ^ nat (k - 1) \<le> real_of_int m - 1" by simp
  moreover have "real_of_int m - 1 < y"
    unfolding m_def by linarith
  ultimately have "2 powi (k - 1) < y" using p1 by linarith
  then have "2 powi (k - 1) < 1 / x" by (simp add: y_def)
  then have "2 powi (k - 1) * x < 1" using assms by (simp add: field_simps)
  then have "2 powi (1 - k) * (2 powi (k - 1) * x) < 2 powi (1 - k) * 1"
    by (intro mult_strict_left_mono) simp_all
  then have hi: "x < 2 powi (- k + 1)"
    by (simp add: powi_add flip: mult.assoc)
  show ?thesis using lo hi e by simp
qed

lemma binade_less: "0 < x \<Longrightarrow> x < 2 powi k \<Longrightarrow> binade x < k"
proof (rule ccontr)
  assume x: "0 < x" "x < 2 powi k" and "\<not> binade x < k"
  then have "(2::real) powi k \<le> 2 powi (binade x)" by (intro powi_mono) simp
  then show False using binade_bounds [OF x(1)] x(2) by simp
qed

lemma binade_ge: "0 < x \<Longrightarrow> 2 powi k \<le> x \<Longrightarrow> k \<le> binade x"
proof (rule ccontr)
  assume x: "0 < x" "2 powi k \<le> x" and "\<not> k \<le> binade x"
  then have "(2::real) powi (binade x + 1) \<le> 2 powi k" by (intro powi_mono) simp
  then show False using binade_bounds [OF x(1)] x(2) by simp
qed

lemma binade_unique: "0 < x \<Longrightarrow> 2 powi k \<le> x \<Longrightarrow> x < 2 powi (k + 1) \<Longrightarrow> binade x = k"
  using binade_less [of x "k + 1"] binade_ge [of x k] by simp

lemma roundHalfEven_of_int: "roundHalfEven (of_int n) = n"
  by (simp add: roundHalfEven_def)

lemma roundHalfEven_ge: "of_int m \<le> r \<Longrightarrow> m \<le> roundHalfEven r"
proof -
  assume "of_int m \<le> r"
  then have "m \<le> \<lfloor>r\<rfloor>" by (simp add: le_floor_iff)
  then show ?thesis by (simp add: roundHalfEven_def Let_def)
qed

lemma roundHalfEven_le: "r \<le> of_int m \<Longrightarrow> roundHalfEven r \<le> m"
proof -
  assume r: "r \<le> of_int m"
  then have f: "\<lfloor>r\<rfloor> \<le> m" by (simp add: floor_le_iff) 
  show ?thesis
  proof (cases "r - of_int \<lfloor>r\<rfloor> < 1 / 2")
    case True
    then show ?thesis using f by (simp add: roundHalfEven_def Let_def)
  next
    case False
    then have "of_int \<lfloor>r\<rfloor> < r" by simp
    then have "of_int \<lfloor>r\<rfloor> < (of_int m :: real)" using r by simp
    then have "\<lfloor>r\<rfloor> < m" by (simp only: of_int_less_iff)
    then show ?thesis by (simp add: roundHalfEven_def Let_def)
  qed
qed


lemma roundToDouble_FiniteI:
  assumes "y \<noteq> 0" and "binade \<bar>y\<bar> < 1024" and "max (binade \<bar>y\<bar>) (- 1022) = e"
    and "roundHalfEven (\<bar>y\<bar> * 2 powi (52 - e)) = n" and "\<not> (e = 1023 \<and> n = 2 ^ 53)"
  shows "roundToDouble y = Finite (sgn y * (of_int n * 2 powi (e - 52)))"
  using assms by (simp add: roundToDouble_def Let_def scale2_powi)

lemma roundToDouble_FiniteD:
  assumes "roundToDouble x = Finite y" and "x \<noteq> 0"
  shows "binade \<bar>x\<bar> < 1024
     \<and> \<not> (max (binade \<bar>x\<bar>) (- 1022) = 1023
           \<and> roundHalfEven (\<bar>x\<bar> * 2 powi (52 - max (binade \<bar>x\<bar>) (- 1022))) = 2 ^ 53)
     \<and> y = sgn x * (of_int (roundHalfEven (\<bar>x\<bar> * 2 powi (52 - max (binade \<bar>x\<bar>) (- 1022))))
                     * 2 powi (max (binade \<bar>x\<bar>) (- 1022) - 52))"
  using assms by (auto simp: roundToDouble_def Let_def scale2_powi split: if_splits)

lemma roundToDouble_idem:
  assumes "roundToDouble x = Finite y"
  shows "roundToDouble y = Finite y"
proof (cases "x = 0")
  case True
  then have "y = 0" using assms by (simp add: roundToDouble_def)
  then show ?thesis by (simp add: roundToDouble_def)
next
  case False
  define a where "a = \<bar>x\<bar>"
  define b where "b = binade a"
  define e where "e = max b (- 1022)"
  define n where "n = roundHalfEven (a * 2 powi (52 - e))"
  define z where "z = real_of_int n * 2 powi (e - 52)"
  have a: "0 < a" using False by (simp add: a_def)
  have d: "b < 1024" "\<not> (e = 1023 \<and> n = 2 ^ 53)" "y = sgn x * z"
    using roundToDouble_FiniteD [OF assms False]
    by (simp_all add: a_def b_def e_def n_def z_def)
  have bb: "2 powi b \<le> a" "a < 2 powi (b + 1)"
    using binade_bounds [OF a] by (simp_all add: b_def)
  have e_lo: "- 1022 \<le> e" and be: "b \<le> e" and e_hi: "e \<le> 1023"
    using d(1) by (simp_all add: e_def)
  have n0: "0 \<le> n"
    unfolding n_def using a by (intro roundHalfEven_ge) simp
  have n_le: "n \<le> 2 ^ 53"
  proof -
    have "a * 2 powi (52 - e) \<le> 2 powi (b + 1) * 2 powi (52 - e)"
      using bb(2) by (intro mult_right_mono) simp_all
    also have "\<dots> = 2 powi (b + 1 + (52 - e))" by (rule powi_add)
    also have "\<dots> \<le> 2 powi 53" using be by (intro powi_mono) simp
    also have "\<dots> = real_of_int (2 ^ 53)" by simp
    finally show ?thesis unfolding n_def by (rule roundHalfEven_le)
  qed
  have n_ge: "2 ^ 52 \<le> n" if "- 1022 \<le> b"
  proof -
    have eb: "e = b" using that by (simp add: e_def)
    have "real_of_int (2 ^ 52) = 2 powi 52" by simp
    also have "\<dots> = 2 powi b * 2 powi (52 - b)" by (simp add: powi_add)
    also have "\<dots> \<le> a * 2 powi (52 - b)"
      using bb(1) by (intro mult_right_mono) simp_all
    finally show ?thesis unfolding n_def eb by (rule roundHalfEven_ge)
  qed
  show ?thesis
  proof (cases "n = 0")
    case True
    then have "y = 0" using d(3) by (simp add: z_def)
    then show ?thesis by (simp add: roundToDouble_def)
  next
    case False
    then have n_pos: "0 < n" using n0 by simp
    have z: "0 < z" unfolding z_def using n_pos by simp
    have sx: "sgn x = 1 \<or> sgn x = - 1"
      using \<open>x \<noteq> 0\<close> by (simp add: sgn_real_def)
    have y0: "y \<noteq> 0" and ya: "\<bar>y\<bar> = z" and sy: "sgn y = sgn x"
      using sx z d(3) by (auto simp: sgn_real_def)
    show ?thesis
    proof (cases "n = 2 ^ 53")
      case True
      then have e1022: "e \<le> 1022" using d(2) e_hi by simp
      have "z = 2 powi 53 * 2 powi (e - 52)" by (simp add: z_def True)
      also have "\<dots> = 2 powi (e + 1)" by (rule powi_add') simp
      finally have z1: "z = 2 powi (e + 1)" .
      have "z < 2 powi (e + 1 + 1)" unfolding z1 by (intro powi_strict_mono) simp
      then have bz: "binade z = e + 1"
        using z z1 by (intro binade_unique) simp_all
      have "z * 2 powi (52 - (e + 1)) = 2 powi 52"
        unfolding z1 by (simp add: powi_add)
      then have "z * 2 powi (52 - (e + 1)) = real_of_int (2 ^ 52)" by simp
      then have r: "roundHalfEven (\<bar>y\<bar> * 2 powi (52 - (e + 1))) = 2 ^ 52"
        unfolding ya by (simp only: roundHalfEven_of_int)
      have rd: "roundToDouble y
          = Finite (sgn y * (real_of_int (2 ^ 52) * 2 powi (e + 1 - 52)))"
        using y0 e1022 e_lo bz r by (intro roundToDouble_FiniteI) (simp_all add: ya)
      have "real_of_int (2 ^ 52) = 2 powi 52" by simp
      then have "real_of_int (2 ^ 52) * 2 powi (e + 1 - 52) = 2 powi 52 * 2 powi (e + 1 - 52)"
        by (simp only:)
      also have "\<dots> = 2 powi (e + 1)" by (rule powi_add') simp
      finally have "real_of_int (2 ^ 52) * 2 powi (e + 1 - 52) = z"
        using z1 by (simp only:)
      with rd have "roundToDouble y = Finite (sgn y * z)" by (simp only:)
      then show ?thesis using sy d(3) by (simp only:)
    next
      case False
      then have n_lt: "n < 2 ^ 53" using n_le by simp
      have bz: "binade z < 1024 \<and> max (binade z) (- 1022) = e"
      proof (cases "2 ^ 52 \<le> n")
        case True
        have "(2::real) powi e = 2 powi 52 * 2 powi (e - 52)"
          by (rule powi_add' [symmetric]) simp
        also have "\<dots> = real_of_int (2 ^ 52) * 2 powi (e - 52)" by simp
        also have "\<dots> \<le> z" unfolding z_def
          using True by (intro mult_right_mono) (simp_all only: of_int_le_iff, simp)
        finally have lo: "2 powi e \<le> z" .
        have "z < real_of_int (2 ^ 53) * 2 powi (e - 52)" unfolding z_def
          using n_lt by (intro mult_strict_right_mono) (simp_all only: of_int_less_iff, simp)
        also have "\<dots> = 2 powi 53 * 2 powi (e - 52)" by simp
        also have "\<dots> = 2 powi (e + 1)" by (rule powi_add') simp
        finally have hi: "z < 2 powi (e + 1)" .
        have "binade z = e" using z lo hi by (rule binade_unique)
        then show ?thesis using e_lo e_hi by simp
      next
        case False
        then have "\<not> - 1022 \<le> b" using n_ge by auto
        then have e: "e = - 1022" by (simp add: e_def)
        have "n < 2 ^ 52" using False by simp
        then have "z < real_of_int (2 ^ 52) * 2 powi (e - 52)" unfolding z_def
          by (intro mult_strict_right_mono) (simp_all only: of_int_less_iff, simp)
        also have "\<dots> = 2 powi 52 * 2 powi (e - 52)" by simp
        also have "\<dots> = 2 powi (- 1022)" by (rule powi_add') (simp add: e)
        finally have "binade z < - 1022" using z by (intro binade_less)
        then show ?thesis using e by simp
      qed
      have "z * 2 powi (52 - e) = real_of_int n * (2 powi (e - 52) * 2 powi (52 - e))"
        by (simp add: z_def)
      also have "\<dots> = real_of_int n" by (simp add: powi_add' [of "e - 52" "52 - e" 0])
      finally have r: "roundHalfEven (\<bar>y\<bar> * 2 powi (52 - e)) = n"
        unfolding ya by (simp only: roundHalfEven_of_int)
      have "roundToDouble y = Finite (sgn y * (real_of_int n * 2 powi (e - 52)))"
        using y0 bz r False by (intro roundToDouble_FiniteI) (simp_all add: ya)
      then show ?thesis using sy d(3) by (simp add: z_def)
    qed
  qed
qed

lemma roundToDouble_not_NaN: "roundToDouble x \<noteq> NaN"
  by (simp add: roundToDouble_def Let_def)

lemma negate_roundToDouble: "negate (roundToDouble x) = roundToDouble (- x)"
  by (cases "x = 0") (auto simp: roundToDouble_def Let_def negate_def sgn_real_def)

lemma js_mul_one_round: "js_mul (roundToDouble x) (Finite 1) = roundToDouble x"
proof (cases "roundToDouble x")
  case (Finite y)
  then have "roundToDouble y = Finite y" by (rule roundToDouble_idem)
  then show ?thesis using Finite by simp
qed simp_all

text \<open>
  What a string converts to is NaN, an infinity or a double, and a double times 1 is
  itself.
\<close>

lemma unsignedLiteral_value:
  "unsignedLiteral s = Some n \<Longrightarrow> n = PosInfinity \<or> (\<exists>x. n = roundToDouble x)"
  by (auto simp: unsignedLiteral_def split: if_splits)

lemma strDecimalLiteral_value:
  assumes "strDecimalLiteral s = Some n"
  shows "n = PosInfinity \<or> n = NegInfinity \<or> (\<exists>x. n = roundToDouble x)"
proof (cases s)
  case Nil
  then show ?thesis using assms by (simp add: strDecimalLiteral_def)
next
  case (Cons c r)
  show ?thesis
  proof (cases "c = CHR ''-''")
    case True
    then obtain u where u: "unsignedLiteral r = Some u" and n: "n = negate u"
      using assms Cons by (auto simp: strDecimalLiteral_def)
    from unsignedLiteral_value [OF u] show ?thesis
    proof
      assume "u = PosInfinity"
      then show ?thesis using n by (simp add: negate_def)
    next
      assume "\<exists>x. u = roundToDouble x"
      then obtain x where "u = roundToDouble x" ..
      then have "n = roundToDouble (- x)" using n by (simp add: negate_roundToDouble)
      then show ?thesis by blast
    qed
  next
    case False
    then have "unsignedLiteral r = Some n \<or> unsignedLiteral s = Some n"
      using assms Cons by (auto simp: strDecimalLiteral_def split: if_splits)
    then show ?thesis using unsignedLiteral_value by blast
  qed
qed

lemma strNumericLiteral_value:
  assumes "strNumericLiteral s = Some n"
  shows "n = PosInfinity \<or> n = NegInfinity \<or> (\<exists>x. n = roundToDouble x)"
proof -
  have "strDecimalLiteral s = Some n \<or> (\<exists>x. n = roundToDouble x)"
    using assms
    by (auto simp: strNumericLiteral_def split: list.splits option.splits if_splits)
  then show ?thesis using strDecimalLiteral_value by blast
qed

lemma StringToNumber_value:
  "StringToNumber s = NaN \<or> StringToNumber s = PosInfinity \<or> StringToNumber s = NegInfinity
     \<or> (\<exists>x. StringToNumber s = roundToDouble x)"
proof (cases "trimString s = []")
  case True
  then have "StringToNumber s = roundToDouble 0"
    by (simp add: StringToNumber_def roundToDouble_def)
  then show ?thesis by blast
next
  case False
  show ?thesis
  proof (cases "strNumericLiteral (trimString s)")
    case None
    then show ?thesis using False by (simp add: StringToNumber_def)
  next
    case (Some n)
    then have "StringToNumber s = n" using False by (simp add: StringToNumber_def)
    then show ?thesis using strNumericLiteral_value [OF Some] by auto
  qed
qed

lemma StringToNumber_times_one: "js_mul (StringToNumber s) (Finite 1) = StringToNumber s"
  using StringToNumber_value [of s] by (auto simp: js_mul_one_round)

lemma js_ge_lt: "x \<noteq> NaN \<Longrightarrow> y \<noteq> NaN \<Longrightarrow> (\<not> js_ge x y) = js_lt x y"
  by (cases x; cases y) auto

lemma truthy_num_not_NaN: "truthy_num m \<Longrightarrow> m \<noteq> NaN"
  by (cases m) auto

lemma js_mul_100_not_NaN: "x \<noteq> NaN \<Longrightarrow> js_mul x (Finite 100) \<noteq> NaN"
  by (cases x) (auto simp: roundToDouble_not_NaN)

lemma bitlen_One: "bitlen 1 = 1"
  by (subst compute_bitlen) simp

lemma bitlen_Bit0: "bitlen (numeral (Num.Bit0 n)) = bitlen (numeral n) + 1"
  by (subst compute_bitlen) simp

lemma bitlen_Bit1: "bitlen (numeral (Num.Bit1 n)) = bitlen (numeral n) + 1"
  by (subst compute_bitlen) simp

lemmas round_defs = roundToDouble_def binade_def scale2_def roundHalfEven_def Let_def
  bitlen_One bitlen_Bit0 bitlen_Bit1

text \<open>
  Rounding at its edges: a decimal that is no double, ties at the 54th bit, the smallest
  subnormal and the largest double.
\<close>

lemma roundToDouble_examples:
  "roundToDouble (3 / 10) = Finite (5404319552844595 / 18014398509481984)"
  "roundToDouble 9007199254740993 = Finite 9007199254740992"
  "roundToDouble (- 9007199254740995) = Finite (- 9007199254740996)"
  "roundToDouble (1 / 2 ^ 1075) = Finite 0"
  "roundToDouble (3 / 2 ^ 1075) = Finite (1 / 2 ^ 1073)"
  "roundToDouble (2 ^ 1024 - 2 ^ 970) = PosInfinity"
  "roundToDouble (2 ^ 1024 - 2 ^ 970 - 1) = Finite (2 ^ 1024 - 2 ^ 971)"
  by (simp_all add: round_defs)

lemma roundToDouble_90: "roundToDouble 90 = Finite 90"
  by (simp add: round_defs)

lemma roundToDouble_50: "roundToDouble 50 = Finite 50"
  by (simp add: round_defs)

lemma roundToDouble_30: "roundToDouble (5404319552844595 / 180143985094819840 * 1000) = Finite 30"
  by (simp add: round_defs)

section \<open>Audit status\<close>

text \<open>
  C1. \<open>auditPassedStatus\<close> classifies every audit: the display modes manual,
  not-applicable and informative give 2 whatever the score, the mode error gives 0
  whatever the score, and every other mode gives 1 when the score as a number is at
  least 0.75 and 0 otherwise; for a score that is a finite number \<open>r\<close> this is
  \<open>0.75 \<le> r\<close>, so 0.75 passes and 0.7499 fails.
\<close>

theorem auditPassedStatus_classification:
  "(scoreDisplayMode a = JStr ''manual'' \<or> scoreDisplayMode a = JStr ''not-applicable''
      \<or> scoreDisplayMode a = JStr ''informative'' \<longrightarrow> auditPassedStatus a = 2)
   \<and> (scoreDisplayMode a = JStr ''error'' \<longrightarrow> auditPassedStatus a = 0)
   \<and> (scoreDisplayMode a \<notin> {JStr ''manual'', JStr ''not-applicable'', JStr ''informative'',
                              JStr ''error''} \<longrightarrow>
        auditPassedStatus a = (if js_ge (ToNumber (audit_score a)) (Finite 0.75) then 1 else 0)
        \<and> (\<forall>r. audit_score a = JNum (Finite r) \<longrightarrow>
              (auditPassedStatus a = 1 \<longleftrightarrow> 0.75 \<le> r) \<and> (auditPassedStatus a = 0 \<longleftrightarrow> r < 0.75))
        \<and> (audit_score a = JNum (Finite 0.75) \<longrightarrow> auditPassedStatus a = 1)
        \<and> (audit_score a = JNum (Finite 0.7499) \<longrightarrow> auditPassedStatus a = 0))"
  by (auto simp: auditPassedStatus_def)

theorem auditPassedStatus_classification_witness:
  "auditPassedStatus
     \<lparr>audit_id = JStr ''a'', audit_title = JStr ''t'', audit_description = JStr ''d'',
      audit_score = JNum (Finite 0.75), scoreDisplayMode = JStr ''numeric''\<rparr> = 1
   \<and> auditPassedStatus
     \<lparr>audit_id = JStr ''a'', audit_title = JStr ''t'', audit_description = JStr ''d'',
      audit_score = JNum (Finite 0.7499), scoreDisplayMode = JStr ''binary''\<rparr> = 0
   \<and> auditPassedStatus
     \<lparr>audit_id = JStr ''a'', audit_title = JStr ''t'', audit_description = JStr ''d'',
      audit_score = JNum (Finite 1), scoreDisplayMode = JStr ''manual''\<rparr> = 2
   \<and> auditPassedStatus
     \<lparr>audit_id = JStr ''a'', audit_title = JStr ''t'', audit_description = JStr ''d'',
      audit_score = JNum (Finite 1), scoreDisplayMode = JStr ''error''\<rparr> = 0"
  using
    auditPassedStatus_classification [of
      "\<lparr>audit_id = JStr ''a'', audit_title = JStr ''t'', audit_description = JStr ''d'',
        audit_score = JNum (Finite 0.75), scoreDisplayMode = JStr ''numeric''\<rparr>"]
    auditPassedStatus_classification [of
      "\<lparr>audit_id = JStr ''a'', audit_title = JStr ''t'', audit_description = JStr ''d'',
        audit_score = JNum (Finite 0.7499), scoreDisplayMode = JStr ''binary''\<rparr>"]
    auditPassedStatus_classification [of
      "\<lparr>audit_id = JStr ''a'', audit_title = JStr ''t'', audit_description = JStr ''d'',
        audit_score = JNum (Finite 1), scoreDisplayMode = JStr ''manual''\<rparr>"]
    auditPassedStatus_classification [of
      "\<lparr>audit_id = JStr ''a'', audit_title = JStr ''t'', audit_description = JStr ''d'',
        audit_score = JNum (Finite 1), scoreDisplayMode = JStr ''error''\<rparr>"]
  by simp

text \<open>
  C10. An audit whose display mode is none of manual, not-applicable, informative and
  error and whose score is \<open>null\<close> fails: \<open>Number(null)\<close> is 0, below 0.75.
\<close>

theorem auditPassedStatus_null_score:
  assumes "scoreDisplayMode a \<notin> {JStr ''manual'', JStr ''not-applicable'', JStr ''informative'',
                                  JStr ''error''}"
    and "audit_score a = JNull"
  shows "ToNumber (audit_score a) = Finite 0 \<and> auditPassedStatus a = 0"
  using assms by (simp add: auditPassedStatus_def)

theorem auditPassedStatus_null_score_witness:
  "auditPassedStatus
     \<lparr>audit_id = JStr ''a'', audit_title = JStr ''t'', audit_description = JStr ''d'',
      audit_score = JNull, scoreDisplayMode = JStr ''numeric''\<rparr> = 0
   \<and> auditPassedStatus
     \<lparr>audit_id = JStr ''a'', audit_title = JStr ''t'', audit_description = JStr ''d'',
      audit_score = JNull, scoreDisplayMode = JStr ''binary''\<rparr> = 0"
  using
    auditPassedStatus_null_score [of
      "\<lparr>audit_id = JStr ''a'', audit_title = JStr ''t'', audit_description = JStr ''d'',
        audit_score = JNull, scoreDisplayMode = JStr ''numeric''\<rparr>"]
    auditPassedStatus_null_score [of
      "\<lparr>audit_id = JStr ''a'', audit_title = JStr ''t'', audit_description = JStr ''d'',
        audit_score = JNull, scoreDisplayMode = JStr ''binary''\<rparr>"]
  by simp

section \<open>Filtering the audits of a category\<close>

lemma filterArray_total:
  "(\<And>x. f x = Inr (g x)) \<Longrightarrow> filterArray f xs = Inr (filter g xs)"
  by (induction xs) simp_all

text \<open>
  Without the key \<open>onlyAudits\<close> the callback throws as soon as it runs with a falsy
  \<open>allAudits\<close>; \<open>prepareOptions\<close> always stores the key.
\<close>

lemma filterAudits_no_onlyAudits:
  assumes "onlyAudits opts = None" and "allAudits opts \<noteq> Some True" and "auditRefs c \<noteq> []"
  shows "filterAudits c opts = Inl TypeError"
proof -
  obtain r rs where "auditRefs c = r # rs"
    using assms(3) by (cases "auditRefs c") auto
  then show ?thesis
    using assms(1,2) by (simp add: filterAudits_def filterAuditsCallback_def truthyFlag_def)
qed

text \<open>
  C4. With \<open>allAudits\<close> falsy and \<open>onlyAudits\<close> a non-empty list, \<open>filterAudits\<close> returns
  the audit references of the category whose id is in \<open>onlyAudits\<close>, in their order; with
  \<open>allAudits\<close> true, or \<open>onlyAudits\<close> empty, it returns all of them unchanged.
\<close>

theorem filterAudits_result:
  "filterAudits c (opts\<lparr>onlyAudits := Some ids\<rparr>) =
     Inr (if allAudits opts \<noteq> Some True \<and> ids \<noteq> []
          then filter (\<lambda>r. auditRef_id r \<in> set ids) (auditRefs c)
          else auditRefs c)
   \<and> (allAudits opts = Some True \<longrightarrow> filterAudits c opts = Inr (auditRefs c))"
proof
  show "filterAudits c (opts\<lparr>onlyAudits := Some ids\<rparr>) =
     Inr (if allAudits opts \<noteq> Some True \<and> ids \<noteq> []
          then filter (\<lambda>r. auditRef_id r \<in> set ids) (auditRefs c)
          else auditRefs c)"
  proof (cases "allAudits opts \<noteq> Some True \<and> ids \<noteq> []")
    case True
    then have "\<And>r. filterAuditsCallback (opts\<lparr>onlyAudits := Some ids\<rparr>) r
                 = Inr (auditRef_id r \<in> set ids)"
      by (simp add: filterAuditsCallback_def truthyFlag_def)
    then show ?thesis using True
      by (simp add: filterAudits_def filterArray_total)
  next
    case False
    then have "\<And>r. filterAuditsCallback (opts\<lparr>onlyAudits := Some ids\<rparr>) r = Inr True"
      by (auto simp: filterAuditsCallback_def truthyFlag_def)
    then have "filterAudits c (opts\<lparr>onlyAudits := Some ids\<rparr>)
                 = Inr (filter (\<lambda>r. True) (auditRefs c))"
      unfolding filterAudits_def by (rule filterArray_total)
    then show ?thesis using False by auto
  qed
  show "allAudits opts = Some True \<longrightarrow> filterAudits c opts = Inr (auditRefs c)"
  proof
    assume "allAudits opts = Some True"
    then have "\<And>r. filterAuditsCallback opts r = Inr True"
      by (simp add: filterAuditsCallback_def truthyFlag_def)
    then have "filterAudits c opts = Inr (filter (\<lambda>r. True) (auditRefs c))"
      unfolding filterAudits_def by (rule filterArray_total)
    then show "filterAudits c opts = Inr (auditRefs c)" by simp
  qed
qed

theorem filterAudits_result_witness:
  "filterAudits
     \<lparr>category_title = ''Performance'', category_score = JNum (Finite 1),
      auditRefs = [\<lparr>auditRef_id = ''a''\<rparr>, \<lparr>auditRef_id = ''b''\<rparr>, \<lparr>auditRef_id = ''c''\<rparr>]\<rparr>
     \<lparr>urls = Some [], onlyAudits = Some [''a'', ''b''], scores = None, showAudits = None,
      extendedInfo = Some False, allAudits = Some False\<rparr>
     = Inr [\<lparr>auditRef_id = ''a''\<rparr>, \<lparr>auditRef_id = ''b''\<rparr>]
   \<and> filterAudits
     \<lparr>category_title = ''Performance'', category_score = JNum (Finite 1),
      auditRefs = [\<lparr>auditRef_id = ''a''\<rparr>, \<lparr>auditRef_id = ''b''\<rparr>, \<lparr>auditRef_id = ''c''\<rparr>]\<rparr>
     \<lparr>urls = Some [], onlyAudits = Some [''a'', ''b''], scores = None, showAudits = None,
      extendedInfo = Some False, allAudits = Some True\<rparr>
     = Inr [\<lparr>auditRef_id = ''a''\<rparr>, \<lparr>auditRef_id = ''b''\<rparr>, \<lparr>auditRef_id = ''c''\<rparr>]"
  using
    filterAudits_result [where
      c = "\<lparr>category_title = ''Performance'', category_score = JNum (Finite 1),
        auditRefs = [\<lparr>auditRef_id = ''a''\<rparr>, \<lparr>auditRef_id = ''b''\<rparr>, \<lparr>auditRef_id = ''c''\<rparr>]\<rparr>"
      and opts = "\<lparr>urls = Some [], onlyAudits = Some [''a'', ''b''], scores = None, showAudits = None,
        extendedInfo = Some False, allAudits = Some False\<rparr>"
      and ids = "[''a'', ''b'']"]
    filterAudits_result [where
      c = "\<lparr>category_title = ''Performance'', category_score = JNum (Finite 1),
        auditRefs = [\<lparr>auditRef_id = ''a''\<rparr>, \<lparr>auditRef_id = ''b''\<rparr>, \<lparr>auditRef_id = ''c''\<rparr>]\<rparr>"
      and opts = "\<lparr>urls = Some [], onlyAudits = Some [''a'', ''b''], scores = None, showAudits = None,
        extendedInfo = Some False, allAudits = Some True\<rparr>"
      and ids = "[''a'', ''b'']"]
  by simp

section \<open>Validators\<close>

lemma find_Some_set: "find P xs = Some k \<Longrightarrow> P k \<and> k \<in> set xs"
  by (induction xs) (auto split: if_splits)

lemma find_Some_ex: "(\<exists>k. find P xs = Some k) \<longleftrightarrow> (\<exists>k \<in> set xs. P k)"
  by (induction xs) auto

lemma getProp_Undefined_iff:
  "getProp obj key = Undefined \<longleftrightarrow> key \<notin> fst ` set obj \<and> key \<notin> set objectPrototypeKeys"
proof (cases "map_of obj key")
  case None
  then have "key \<notin> fst ` set obj"
    by (simp add: map_of_eq_None_iff)
  with None show ?thesis by (simp add: getProp_def)
next
  case (Some v)
  then have "key \<in> fst ` set obj"
    by (metis map_of_eq_None_iff option.distinct(1))
  with Some show ?thesis by (simp add: getProp_def)
qed

lemma validateCategoriesLoop_find:
  "validateCategoriesLoop cats ks =
     (case find (\<lambda>k. getProp cats k = Undefined) ks of
        None \<Rightarrow> Inr ()
      | Some k \<Rightarrow> Inl (Error (''Category <'' @ k @ ''> is unknown'')))"
  by (induction ks) (auto split: lookup.splits)

text \<open>
  What \<open>validateCategories\<close> does: it throws exactly when a key of \<open>scores\<close> is neither
  a category id nor the name of a member of \<open>Object.prototype\<close>.
\<close>

lemma validateCategories_throws_iff:
  "(\<exists>e. validateCategories cats opts = Inl e) \<longleftrightarrow>
     (\<exists>sc. scores opts = Some sc \<and>
        (\<exists>k \<in> fst ` set sc. k \<notin> fst ` set cats \<and> k \<notin> set objectPrototypeKeys))"
proof (cases "scores opts")
  case None
  then show ?thesis by (simp add: validateCategories_def)
next
  case (Some sc)
  have "(\<exists>e. validateCategories cats opts = Inl e)
          \<longleftrightarrow> (\<exists>k. find (\<lambda>k. getProp cats k = Undefined) (map fst sc) = Some k)"
    using Some
    by (cases "find (\<lambda>k. getProp cats k = Undefined) (map fst sc)")
       (simp_all add: validateCategories_def validateCategoriesLoop_find Object_keys_def)
  also have "\<dots> \<longleftrightarrow> (\<exists>k \<in> set (map fst sc). getProp cats k = Undefined)"
    by (rule find_Some_ex)
  finally show ?thesis
    using Some by (simp add: getProp_Undefined_iff)
qed

text \<open>
  C5. \<open>validateCategories\<close> is meant to throw for every key of \<open>scores\<close> that is not a
  key of \<open>categories\<close>. It throws for \<open>bar\<close>, but for the key \<open>toString\<close>, which is no
  category either, \<open>categories[categoryId]\<close> finds the inherited method, which is truthy,
  and nothing is thrown.
\<close>

theorem validateCategories_inherited_key:
  "validateCategories
     [(''foo'', \<lparr>category_title = ''Foo'', category_score = JNum (Finite 1), auditRefs = []\<rparr>)]
     \<lparr>urls = Some [], onlyAudits = Some [], scores = Some [(''toString'', Finite 50)],
      showAudits = None, extendedInfo = Some False, allAudits = Some False\<rparr> = Inr ()
   \<and> ''toString'' \<notin> set (Object_keys
        [(''foo'', \<lparr>category_title = ''Foo'', category_score = JNum (Finite 1), auditRefs = []\<rparr>)])
   \<and> validateCategories
     [(''foo'', \<lparr>category_title = ''Foo'', category_score = JNum (Finite 1), auditRefs = []\<rparr>)]
     \<lparr>urls = Some [], onlyAudits = Some [], scores = Some [(''bar'', Finite 50)],
      showAudits = None, extendedInfo = Some False, allAudits = Some False\<rparr>
       = Inl (Error ''Category <bar> is unknown'')"
  by (simp add: validateCategories_def Object_keys_def getProp_def objectPrototypeKeys_def)

lemma validAuditLoop_iff:
  "validAuditLoop auditId cats v \<longleftrightarrow>
     v \<or> (\<exists>(k, c) \<in> set cats. \<exists>r \<in> set (auditRefs c). auditRef_id r = auditId)"
proof (induction cats arbitrary: v)
  case Nil
  then show ?case by simp
next
  case (Cons p cats)
  obtain k c where p: "p = (k, c)" by (cases p)
  have "find (\<lambda>auditRef. auditRef_id auditRef = auditId) (auditRefs c) \<noteq> None
          \<longleftrightarrow> (\<exists>r \<in> set (auditRefs c). auditRef_id r = auditId)"
    by (auto simp: find_None_iff)
  then show ?case
    unfolding p by (simp add: Cons.IH)
qed

lemma validAuditLoop_False:
  "\<not> validAuditLoop auditId cats False \<longleftrightarrow>
     (\<forall>(k, c) \<in> set cats. \<forall>r \<in> set (auditRefs c). auditRef_id r \<noteq> auditId)"
  by (auto simp: validAuditLoop_iff)

lemma validateAuditsLoop_find:
  "validateAuditsLoop cats ids =
     (case find (\<lambda>auditId. \<not> validAuditLoop auditId cats False) ids of
        None \<Rightarrow> Inr ()
      | Some auditId \<Rightarrow> Inl (Error (''Audit <'' @ auditId @ ''> is unknown'')))"
  by (induction ids) auto

lemma validateAudits_Inl:
  "validateAudits cats opts = Inl e \<longleftrightarrow>
     (\<exists>ids auditId. onlyAudits opts = Some ids
        \<and> find (\<lambda>auditId. \<not> validAuditLoop auditId cats False) ids = Some auditId
        \<and> e = Error (''Audit <'' @ auditId @ ''> is unknown''))"
proof (cases "onlyAudits opts")
  case None
  then show ?thesis by (simp add: validateAudits_def)
next
  case (Some ids)
  then show ?thesis
    by (cases "find (\<lambda>auditId. \<not> validAuditLoop auditId cats False) ids")
       (auto simp: validateAudits_def validateAuditsLoop_find)
qed

text \<open>
  C6. \<open>validateAudits\<close> throws exactly when \<open>onlyAudits\<close> is present and one of its ids
  is the id of no audit reference of any category; the error then names such an id.
  Without \<open>onlyAudits\<close>, or with an empty list, it does not throw.
\<close>

theorem validateAudits_throws_iff:
  "((\<exists>e. validateAudits cats opts = Inl e) \<longleftrightarrow>
      (\<exists>ids. onlyAudits opts = Some ids \<and>
         (\<exists>auditId \<in> set ids. \<forall>(k, c) \<in> set cats. \<forall>r \<in> set (auditRefs c). auditRef_id r \<noteq> auditId)))
   \<and> (\<forall>e. validateAudits cats opts = Inl e \<longrightarrow>
         (\<exists>auditId \<in> set (the (onlyAudits opts)).
            e = Error (''Audit <'' @ auditId @ ''> is unknown'')
            \<and> (\<forall>(k, c) \<in> set cats. \<forall>r \<in> set (auditRefs c). auditRef_id r \<noteq> auditId)))
   \<and> (onlyAudits opts = None \<or> onlyAudits opts = Some [] \<longrightarrow> validateAudits cats opts = Inr ())"
proof (intro conjI)
  have "(\<exists>e. validateAudits cats opts = Inl e) \<longleftrightarrow>
          (\<exists>ids. onlyAudits opts = Some ids
             \<and> (\<exists>auditId. find (\<lambda>auditId. \<not> validAuditLoop auditId cats False) ids = Some auditId))"
    by (auto simp: validateAudits_Inl)
  also have "\<dots> \<longleftrightarrow> (\<exists>ids. onlyAudits opts = Some ids
             \<and> (\<exists>auditId \<in> set ids. \<not> validAuditLoop auditId cats False))"
    by (simp add: find_Some_ex)
  finally show "(\<exists>e. validateAudits cats opts = Inl e) \<longleftrightarrow>
      (\<exists>ids. onlyAudits opts = Some ids \<and>
         (\<exists>auditId \<in> set ids. \<forall>(k, c) \<in> set cats. \<forall>r \<in> set (auditRefs c). auditRef_id r \<noteq> auditId))"
    by (simp add: validAuditLoop_False)
  show "\<forall>e. validateAudits cats opts = Inl e \<longrightarrow>
         (\<exists>auditId \<in> set (the (onlyAudits opts)).
            e = Error (''Audit <'' @ auditId @ ''> is unknown'')
            \<and> (\<forall>(k, c) \<in> set cats. \<forall>r \<in> set (auditRefs c). auditRef_id r \<noteq> auditId))"
  proof (intro allI impI)
    fix e assume "validateAudits cats opts = Inl e"
    then obtain ids auditId where ids: "onlyAudits opts = Some ids"
      and f: "find (\<lambda>auditId. \<not> validAuditLoop auditId cats False) ids = Some auditId"
      and e: "e = Error (''Audit <'' @ auditId @ ''> is unknown'')"
      by (auto simp: validateAudits_Inl)
    from f have "\<not> validAuditLoop auditId cats False" and "auditId \<in> set ids"
      using find_Some_set [of "\<lambda>auditId. \<not> validAuditLoop auditId cats False" ids auditId] by auto
    then show "\<exists>auditId \<in> set (the (onlyAudits opts)).
            e = Error (''Audit <'' @ auditId @ ''> is unknown'')
            \<and> (\<forall>(k, c) \<in> set cats. \<forall>r \<in> set (auditRefs c). auditRef_id r \<noteq> auditId)"
      using ids e validAuditLoop_False [of auditId cats] by auto
  qed
  show "onlyAudits opts = None \<or> onlyAudits opts = Some [] \<longrightarrow> validateAudits cats opts = Inr ()"
    by (auto simp: validateAudits_def)
qed

theorem validateAudits_throws_iff_witness:
  "validateAudits
     [(''perf'', \<lparr>category_title = ''Performance'', category_score = JNum (Finite 1),
                  auditRefs = [\<lparr>auditRef_id = ''a''\<rparr>, \<lparr>auditRef_id = ''b''\<rparr>]\<rparr>)]
     \<lparr>urls = Some [], onlyAudits = Some [''a'', ''zz''], scores = None, showAudits = None,
      extendedInfo = Some False, allAudits = Some False\<rparr>
     = Inl (Error ''Audit <zz> is unknown'')
   \<and> validateAudits
     [(''perf'', \<lparr>category_title = ''Performance'', category_score = JNum (Finite 1),
                  auditRefs = [\<lparr>auditRef_id = ''a''\<rparr>, \<lparr>auditRef_id = ''b''\<rparr>]\<rparr>)]
     \<lparr>urls = Some [], onlyAudits = Some [''b'', ''a''], scores = None, showAudits = None,
      extendedInfo = Some False, allAudits = Some False\<rparr>
     = Inr ()"
  using
    validateAudits_throws_iff [where
      cats = "[(''perf'', \<lparr>category_title = ''Performance'', category_score = JNum (Finite 1),
                  auditRefs = [\<lparr>auditRef_id = ''a''\<rparr>, \<lparr>auditRef_id = ''b''\<rparr>]\<rparr>)]"
      and opts = "\<lparr>urls = Some [], onlyAudits = Some [''a'', ''zz''], scores = None,
        showAudits = None, extendedInfo = Some False, allAudits = Some False\<rparr>"]
    validateAudits_throws_iff [where
      cats = "[(''perf'', \<lparr>category_title = ''Performance'', category_score = JNum (Finite 1),
                  auditRefs = [\<lparr>auditRef_id = ''a''\<rparr>, \<lparr>auditRef_id = ''b''\<rparr>]\<rparr>)]"
      and opts = "\<lparr>urls = Some [], onlyAudits = Some [''b'', ''a''], scores = None,
        showAudits = None, extendedInfo = Some False, allAudits = Some False\<rparr>"]
  by (simp add: validateAudits_def)

section \<open>Options Builder: examples and malformed tokens\<close>

lemmas s2n_defs = StringToNumber_def trimString_def isStrWhiteSpaceChar_def strNumericLiteral_def
  radixOf_def strDecimalLiteral_def unsignedLiteral_def unsignedDecimal_def isDecimalDigit_def
  digitValue_def digitTable_def exponentPart_def signedInteger_def digitString_def scale10_def negate_def

lemma StringToNumber_90:
  "StringToNumber ''90'' = Finite 90"
  by (simp add: s2n_defs roundToDouble_90)
lemma StringToNumber_50:
  "StringToNumber ''50'' = Finite 50"
  by (simp add: s2n_defs roundToDouble_50)
lemma matchScore_perf:
  "matchScore ''perf:90'' = Some (''perf'', ''90'')"
  by code_simp
lemma matchScore_seo:
  "matchScore ''seo:50'' = Some (''seo'', ''50'')"
  by code_simp
lemma splitOn_scores:
  "splitOn (CHR '','') ''perf:90,seo:50'' = [''perf:90'', ''seo:50'']"
  by code_simp
lemma splitOn_audits:
  "splitOn (CHR '','') ''a,b'' = [''a'', ''b'']"
  by code_simp
lemma arrayIndex_perf:
  "arrayIndex ''perf'' = None"
  by code_simp
lemma arrayIndex_seo:
  "arrayIndex ''seo'' = None"
  by code_simp

text \<open>
  C7. The flags \<open>--url=https://example.com --audits=a,b --scores=perf:90,seo:50\<close> give
  the options with these urls, audits and scores and the defaults \<open>extendedInfo: false\<close>
  and \<open>allAudits: false\<close>. No key \<open>showAudits\<close> is stored: it has no default, and
  \<open>getConfig\<close> sets it only for the flag \<open>--showaudits\<close>.
\<close>

theorem prepareOptions_example:
  "prepareOptions readConfig
     \<lparr>argv_config = JUndefined, argv_url = JStr ''https://example.com'',
      argv_audits = JStr ''a,b'', argv_scores = JStr ''perf:90,seo:50'',
      argv_showaudits = JUndefined\<rparr>
   = Inr \<lparr>urls = Some [JStr ''https://example.com''], onlyAudits = Some [''a'', ''b''],
          scores = Some [(''perf'', Finite 90), (''seo'', Finite 50)],
          showAudits = None, extendedInfo = Some False, allAudits = Some False\<rparr>"
  by (simp add: prepareOptions_def getConfig_def flagOptions_def splitCommas_def emptyOptions_def
      orDefault_def splitOn_scores splitOn_audits matchScore_perf matchScore_seo
      StringToNumber_90 StringToNumber_50 roundToDouble_90 roundToDouble_50
      arrayIndex_perf arrayIndex_seo setProp_def)

theorem prepareOptions_showAudits_counterexample:
  "prepareOptions (\<lambda>file. Inl SystemError)
     \<lparr>argv_config = JUndefined, argv_url = JStr ''https://example.com'',
      argv_audits = JStr ''a,b'', argv_scores = JStr ''perf:90,seo:50'',
      argv_showaudits = JUndefined\<rparr>
   \<noteq> Inr \<lparr>urls = Some [JStr ''https://example.com''], onlyAudits = Some [''a'', ''b''],
          scores = Some [(''perf'', Finite 90), (''seo'', Finite 50)],
          showAudits = Some False, extendedInfo = Some False, allAudits = Some False\<rparr>"
  by (simp add: prepareOptions_def getConfig_def flagOptions_def splitCommas_def emptyOptions_def
      orDefault_def splitOn_scores splitOn_audits matchScore_perf matchScore_seo
      StringToNumber_90 StringToNumber_50 roundToDouble_90 roundToDouble_50
      arrayIndex_perf arrayIndex_seo setProp_def)

lemma tryGroup1_no_colon: "CHR '':'' \<notin> set s \<Longrightarrow> tryGroup1 s k = None"
proof (induction k)
  case 0
  then show ?case by simp
next
  case (Suc k)
  show ?case
  proof (cases "drop (Suc k) s")
    case Nil
    then show ?thesis using Suc by simp
  next
    case (Cons c rest)
    then have "c \<in> set (drop (Suc k) s)" by simp
    then have "c \<in> set s" by (rule in_set_dropD)
    then have "c \<noteq> CHR '':''" using Suc.prems by auto
    then show ?thesis using Cons Suc by simp
  qed
qed

lemma matchScore_no_colon: "CHR '':'' \<notin> set s \<Longrightarrow> matchScore s = None"
  unfolding matchScore_def
proof (induction s)
  case Nil
  then show ?case by simp
next
  case (Cons c cs)
  have "tryGroup1 (c # cs) (length (dots (c # cs))) = None"
    using Cons.prems by (rule tryGroup1_no_colon)
  moreover have "matchFrom cs = None" using Cons by simp
  ultimately show ?case by simp
qed

lemma scoresForEach_error: "scoresForEach ts obj = Inl e \<Longrightarrow> e = TypeError"
  by (induction ts arbitrary: obj) (auto split: option.splits)

lemma scoresForEach_no_match:
  "t \<in> set ts \<Longrightarrow> matchScore t = None \<Longrightarrow> scoresForEach ts obj = Inl TypeError"
proof (induction ts arbitrary: obj)
  case Nil
  then show ?case by simp
next
  case (Cons u us)
  show ?case
  proof (cases "matchScore u")
    case None
    then show ?thesis by simp
  next
    case (Some r)
    then have "t \<in> set us" using Cons.prems by auto
    then have "\<And>obj'. scoresForEach us obj' = Inl TypeError"
      using Cons.IH Cons.prems(2) by blast
    then show ?thesis using Some by (cases r) simp
  qed
qed

lemma splitCommas_error: "splitCommas v = Inl e \<Longrightarrow> e = TypeError"
  by (cases v) (auto simp: splitCommas_def)

text \<open>
  C9. Without a configuration file, a token of a non-empty \<open>--scores\<close> that has no colon
  is not matched by the pattern, \<open>result[1]\<close> throws a TypeError, and neither
  \<open>getConfig\<close> nor \<open>prepareOptions\<close> returns options.
\<close>

theorem malformed_token_throws:
  assumes "\<not> truthy (argv_config a)"
    and "argv_scores a = JStr s"
    and "s \<noteq> []"
    and "t \<in> set (splitOn (CHR '','') s)"
    and "CHR '':'' \<notin> set t"
  shows "matchScore t = None
     \<and> getConfig readConfig a = Inl TypeError
     \<and> prepareOptions readConfig a = Inl TypeError"
proof -
  have m: "matchScore t = None"
    using assms(5) by (rule matchScore_no_colon)
  have loop: "scoresForEach (splitOn (CHR '','') s) [] = Inl TypeError"
    using assms(4) m by (rule scoresForEach_no_match)
  have "flagOptions a = Inl TypeError"
  proof (cases "truthy (argv_audits a)")
    case False
    then show ?thesis
      using assms(2,3) loop by (simp add: flagOptions_def splitCommas_def)
  next
    case True
    show ?thesis
    proof (cases "splitCommas (argv_audits a)")
      case (Inl e)
      then have "e = TypeError" by (rule splitCommas_error)
      then show ?thesis using True Inl by (simp add: flagOptions_def)
    next
      case (Inr ids)
      then show ?thesis
        using True assms(2,3) loop by (simp add: flagOptions_def splitCommas_def)
    qed
  qed
  then have "getConfig readConfig a = Inl TypeError"
    using assms(1) by (simp add: getConfig_def)
  then show ?thesis
    using m by (simp add: prepareOptions_def)
qed

lemma splitOn_perf90:
  "splitOn (CHR '','') ''perf90'' = [''perf90'']"
  by code_simp

theorem malformed_token_throws_witness:
  "getConfig (\<lambda>file. Inl SystemError)
     \<lparr>argv_config = JUndefined, argv_url = JStr ''https://example.com'',
      argv_audits = JUndefined, argv_scores = JStr ''perf90'',
      argv_showaudits = JUndefined\<rparr> = Inl TypeError"
  using malformed_token_throws [where
      a = "\<lparr>argv_config = JUndefined, argv_url = JStr ''https://example.com'',
            argv_audits = JUndefined, argv_scores = JStr ''perf90'',
            argv_showaudits = JUndefined\<rparr>"
      and s = "''perf90''" and t = "''perf90''" and readConfig = "\<lambda>file. Inl SystemError"]
  by (simp add: splitOn_perf90)

section \<open>Options Builder: where a token is split\<close>

text \<open>
  For a token without line terminators the pattern splits at the last colon that has a
  character before it and a character after it, and fails when there is no such colon.
\<close>

lemma dots_id: "\<forall>c \<in> set s. \<not> isLineTerminator c \<Longrightarrow> dots s = s"
  by (simp add: dots_def takeWhile_eq_all_conv)

lemma tryGroup1_last_colon:
  assumes "\<forall>c \<in> set s. \<not> isLineTerminator c"
    and "0 < i" and "i \<le> k" and "i + 1 < length s" and "s ! i = CHR '':''"
    and "\<forall>j. i < j \<and> j \<le> k \<and> j + 1 < length s \<longrightarrow> s ! j \<noteq> CHR '':''"
  shows "tryGroup1 s k = Some (take i s, drop (Suc i) s)"
  using assms(3,6)
proof (induction k)
  case 0
  then show ?case using assms(2) by simp
next
  case (Suc k)
  show ?case
  proof (cases "i = Suc k")
    case True
    have d: "drop (Suc k) s = s ! i # drop (Suc i) s"
      using True assms(4) by (simp add: Cons_nth_drop_Suc)
    have "\<forall>c \<in> set (drop (Suc i) s). \<not> isLineTerminator c"
      using assms(1) by (meson in_set_dropD)
    then have "dots (drop (Suc i) s) = drop (Suc i) s" by (rule dots_id)
    moreover have "drop (Suc i) s \<noteq> []" using assms(4) by simp
    ultimately show ?thesis using d True assms(5) by simp
  next
    case False
    then have ik: "i \<le> k" using Suc.prems(1) by simp
    have ih: "tryGroup1 s k = Some (take i s, drop (Suc i) s)"
      using Suc.IH ik Suc.prems(2) by simp
    show ?thesis
    proof (cases "drop (Suc k) s")
      case Nil
      then show ?thesis using ih by simp
    next
      case (Cons c rest)
      then have len: "Suc k < length s"
        by (metis drop_eq_Nil list.distinct(1) not_le)
      have c: "c = s ! Suc k"
        using Cons len by (metis Cons_nth_drop_Suc list.inject)
      have rest: "rest = drop (Suc (Suc k)) s"
        using Cons len by (metis Cons_nth_drop_Suc list.inject)
      have "\<not> (c = CHR '':'' \<and> dots rest \<noteq> [])"
      proof
        assume h: "c = CHR '':'' \<and> dots rest \<noteq> []"
        then have "rest \<noteq> []" by (auto simp: dots_def)
        then have "Suc k + 1 < length s"
          using rest by simp
        then have "s ! Suc k \<noteq> CHR '':''"
          using Suc.prems(2) ik by auto
        then show False using h c by simp
      qed
      then show ?thesis using Cons ih by auto
    qed
  qed
qed

lemma matchScore_last_colon:
  assumes "\<forall>c \<in> set s. \<not> isLineTerminator c"
    and "0 < i" and "i + 1 < length s" and "s ! i = CHR '':''"
    and "\<forall>j. i < j \<and> j + 1 < length s \<longrightarrow> s ! j \<noteq> CHR '':''"
  shows "matchScore s = Some (take i s, drop (Suc i) s)"
proof -
  obtain c cs where s: "s = c # cs"
    using assms(3) by (cases s) auto
  have "dots s = s" using assms(1) by (rule dots_id)
  moreover have "tryGroup1 s (length s) = Some (take i s, drop (Suc i) s)"
    using assms by (intro tryGroup1_last_colon) auto
  ultimately show ?thesis
    unfolding matchScore_def s by simp
qed

lemma tryGroup1_None:
  "\<forall>j. 0 < j \<and> j \<le> k \<and> j + 1 < length s \<longrightarrow> s ! j \<noteq> CHR '':'' \<Longrightarrow> tryGroup1 s k = None"
proof (induction k)
  case 0
  then show ?case by simp
next
  case (Suc k)
  then have ih: "tryGroup1 s k = None" by simp
  show ?case
  proof (cases "drop (Suc k) s")
    case Nil
    then show ?thesis using ih by simp
  next
    case (Cons c rest)
    then have len: "Suc k < length s"
      by (metis drop_eq_Nil list.distinct(1) not_le)
    have c: "c = s ! Suc k"
      using Cons len by (metis Cons_nth_drop_Suc list.inject)
    have rest: "rest = drop (Suc (Suc k)) s"
      using Cons len by (metis Cons_nth_drop_Suc list.inject)
    have "\<not> (c = CHR '':'' \<and> dots rest \<noteq> [])"
    proof
      assume h: "c = CHR '':'' \<and> dots rest \<noteq> []"
      then have "rest \<noteq> []" by (auto simp: dots_def)
      then have "Suc k + 1 < length s"
        using rest by simp
      then have "s ! Suc k \<noteq> CHR '':''"
        using Suc.prems by auto
      then show False using h c by simp
    qed
    then show ?thesis using Cons ih by auto
  qed
qed

lemma matchScore_None:
  "\<forall>j. 0 < j \<and> j + 1 < length s \<longrightarrow> s ! j \<noteq> CHR '':'' \<Longrightarrow> matchScore s = None"
  unfolding matchScore_def
proof (induction s)
  case Nil
  then show ?case by simp
next
  case (Cons c cs)
  have "tryGroup1 (c # cs) (length (dots (c # cs))) = None"
    using Cons.prems by (intro tryGroup1_None) auto
  moreover have "\<forall>j. 0 < j \<and> j + 1 < length cs \<longrightarrow> cs ! j \<noteq> CHR '':''"
  proof (intro allI impI)
    fix j assume "0 < j \<and> j + 1 < length cs"
    then have "(c # cs) ! Suc j \<noteq> CHR '':''"
      using Cons.prems by auto
    then show "cs ! j \<noteq> CHR '':''" by simp
  qed
  then have "matchFrom cs = None" by (rule Cons.IH)
  ultimately show ?case by simp
qed

lemma map_of_replaceOwn:
  "map_of (replaceOwn key v obj) k =
     (if k = key \<and> map_of obj key \<noteq> None then Some v else map_of obj k)"
  by (induction obj) auto

lemma map_of_insertIndexed:
  "map_of obj key = None \<Longrightarrow>
   map_of (insertIndexed n key v obj) k = (if k = key then Some v else map_of obj k)"
  by (induction obj) (auto split: option.splits)

lemma map_of_setProp:
  "key \<noteq> ''__proto__'' \<Longrightarrow>
   map_of (setProp obj key v) k = (if k = key then Some v else map_of obj k)"
  by (auto simp: setProp_def map_of_replaceOwn map_of_insertIndexed map_add_def
      split: option.splits)

lemma map_of_setProp_other:
  "k \<noteq> key \<Longrightarrow> map_of (setProp obj key v) k = map_of obj k"
  by (cases "key = ''__proto__''") (simp_all add: map_of_setProp, simp add: setProp_def)

lemma scoresForEach_append:
  "scoresForEach (pre @ ts) obj = Inr sc \<Longrightarrow>
   \<exists>obj'. scoresForEach pre obj = Inr obj' \<and> scoresForEach ts obj' = Inr sc"
  by (induction pre arbitrary: obj) (auto split: option.splits)

lemma scoresForEach_other_keys:
  "scoresForEach ts obj = Inr sc \<Longrightarrow>
   \<forall>u \<in> set ts. \<forall>k v. matchScore u = Some (k, v) \<longrightarrow> k \<noteq> key \<Longrightarrow>
   map_of sc key = map_of obj key"
proof (induction ts arbitrary: obj)
  case Nil
  then show ?case by simp
next
  case (Cons u us)
  from Cons.prems(1) obtain k v where m: "matchScore u = Some (k, v)"
    by (cases "matchScore u") auto
  then have k: "k \<noteq> key" using Cons.prems(2) by auto
  from m Cons.prems(1)
  have "scoresForEach us (setProp obj k (js_mul (ToNumber (JStr v)) (Finite 1))) = Inr sc"
    by simp
  then have "map_of sc key = map_of (setProp obj k (js_mul (ToNumber (JStr v)) (Finite 1))) key"
    using Cons.IH Cons.prems(2) by simp
  then show ?case using k by (simp add: map_of_setProp_other)
qed

lemma getConfig_flags_scores:
  assumes "\<not> truthy (argv_config a)" and "argv_scores a = JStr s" and "s \<noteq> []"
    and "getConfig readConfig a = Inr opts"
  shows "\<exists>sc. scoresForEach (splitOn (CHR '','') s) [] = Inr sc \<and> scores opts = Some sc"
proof -
  from assms(1,4) obtain o' where f: "flagOptions a = Inr o'"
    and opts: "opts = (if truthy (argv_showaudits a) then o'\<lparr>showAudits := Some True\<rparr> else o')"
    by (auto simp: getConfig_def split: sum.splits)
  from f assms(2,3) obtain sc where "scoresForEach (splitOn (CHR '','') s) [] = Inr sc"
    and "scores o' = Some sc"
    by (auto simp: flagOptions_def splitCommas_def Let_def split: sum.splits if_splits)
  then show ?thesis using opts by auto
qed

lemma splitOn_abc: "splitOn (CHR '','') ''a:b:90'' = [] @ ''a:b:90'' # []"
  by code_simp

lemma matchScore_abc: "matchScore ''a:b:90'' = Some (''a:b'', ''90'')"
  by code_simp

lemma arrayIndex_abc: "arrayIndex ''a:b'' = None"
  by code_simp

lemma getConfig_abc:
  "getConfig (\<lambda>file. Inl SystemError)
     \<lparr>argv_config = JUndefined, argv_url = JStr ''https://example.com'',
      argv_audits = JUndefined, argv_scores = JStr ''a:b:90'', argv_showaudits = JUndefined\<rparr>
   = Inr \<lparr>urls = Some [JStr ''https://example.com''], onlyAudits = None,
          scores = Some [(''a:b'', Finite 90)], showAudits = None, extendedInfo = None,
          allAudits = None\<rparr>"
  by (simp add: getConfig_def flagOptions_def splitCommas_def emptyOptions_def
      splitOn_abc matchScore_abc StringToNumber_90 roundToDouble_90 arrayIndex_abc setProp_def)


lemma StringToNumber_1e400: "StringToNumber ''1e400'' = PosInfinity"
  by (simp add: s2n_defs round_defs)

lemma splitOn_a1e400: "splitOn (CHR '','') ''a:1e400'' = [] @ ''a:1e400'' # []"
  by code_simp

lemma matchScore_a1e400: "matchScore ''a:1e400'' = Some (''a'', ''1e400'')"
  by code_simp

lemma arrayIndex_a: "arrayIndex ''a'' = None"
  by code_simp

lemma getConfig_a1e400:
  "getConfig (\<lambda>file. Inl SystemError)
     \<lparr>argv_config = JUndefined, argv_url = JStr ''https://example.com'',
      argv_audits = JUndefined, argv_scores = JStr ''a:1e400'', argv_showaudits = JUndefined\<rparr>
   = Inr \<lparr>urls = Some [JStr ''https://example.com''], onlyAudits = None,
          scores = Some [(''a'', PosInfinity)], showAudits = None, extendedInfo = None,
          allAudits = None\<rparr>"
  by (simp add: getConfig_def flagOptions_def splitCommas_def emptyOptions_def
      splitOn_a1e400 matchScore_a1e400 StringToNumber_1e400 arrayIndex_a setProp_def)

text \<open>
  C2. On the flags path every token of \<open>--scores\<close> that has a colon with a character on
  both sides is split at the last such colon (the first group of the pattern is greedy),
  not at the first: the scores map the text before that colon to the number the text
  after it converts to (the double nearest to its value, an infinity beyond the doubles,
  NaN when it is no numeric literal), unless the key is \<open>__proto__\<close> or a later token has
  the same key. The token \<open>a:b:90\<close> gives the key \<open>a:b\<close> with the value 90 and no key
  \<open>a\<close>; the token \<open>a:1e400\<close> gives the key \<open>a\<close> with the value Infinity.
\<close>

theorem scores_split_at_last_colon:
  assumes "\<not> truthy (argv_config a)"
    and "argv_scores a = JStr s"
    and "getConfig readConfig a = Inr opts"
    and "splitOn (CHR '','') s = pre @ t # post"
    and "\<forall>c \<in> set t. \<not> isLineTerminator c"
    and "0 < i" and "i + 1 < length t" and "t ! i = CHR '':''"
    and "\<forall>j. i < j \<and> j + 1 < length t \<longrightarrow> t ! j \<noteq> CHR '':''"
    and "take i t \<noteq> ''__proto__''"
    and "\<forall>u \<in> set post. \<forall>k v. matchScore u = Some (k, v) \<longrightarrow> k \<noteq> take i t"
  shows "matchScore t = Some (take i t, drop (Suc i) t)
     \<and> (\<exists>m. scores opts = Some m
            \<and> map_of m (take i t) = Some (StringToNumber (drop (Suc i) t)))"
proof -
  have m: "matchScore t = Some (take i t, drop (Suc i) t)"
    using assms(5-9) by (rule matchScore_last_colon)
  have "s \<noteq> []"
  proof
    assume "s = []"
    then have "pre @ t # post = [[]]" using assms(4) by simp
    then have "t = []" by (cases pre) auto
    then show False using assms(7) by simp
  qed
  then obtain sc where loop: "scoresForEach (pre @ t # post) [] = Inr sc"
    and sc: "scores opts = Some sc"
    using getConfig_flags_scores [OF assms(1,2) _ assms(3)] assms(4) by auto
  from loop obtain obj where "scoresForEach (t # post) obj = Inr sc"
    using scoresForEach_append by blast
  then have "scoresForEach post
      (setProp obj (take i t) (StringToNumber (drop (Suc i) t))) = Inr sc"
    using m by (simp add: StringToNumber_times_one)
  then have "map_of sc (take i t)
      = map_of (setProp obj (take i t) (StringToNumber (drop (Suc i) t))) (take i t)"
    using assms(11) by (rule scoresForEach_other_keys)
  then have "map_of sc (take i t) = Some (StringToNumber (drop (Suc i) t))"
    using assms(10) by (simp add: map_of_setProp)
  then show ?thesis using m sc by simp
qed

theorem scores_split_at_last_colon_witness:
  "matchScore ''a:b:90'' = Some (''a:b'', ''90'')
   \<and> (\<exists>m. scores \<lparr>urls = Some [JStr ''https://example.com''], onlyAudits = None,
          scores = Some [(''a:b'', Finite 90)], showAudits = None, extendedInfo = None,
          allAudits = None\<rparr> = Some m \<and> map_of m ''a:b'' = Some (Finite 90))
   \<and> matchScore ''a:1e400'' = Some (''a'', ''1e400'')
   \<and> (\<exists>m. scores \<lparr>urls = Some [JStr ''https://example.com''], onlyAudits = None,
          scores = Some [(''a'', PosInfinity)], showAudits = None, extendedInfo = None,
          allAudits = None\<rparr> = Some m \<and> map_of m ''a'' = Some PosInfinity)"
proof -
  have last: "\<forall>j. 3 < j \<and> j + 1 < length ''a:b:90'' \<longrightarrow> ''a:b:90'' ! j \<noteq> CHR '':''"
  proof (intro allI impI)
    fix j :: nat assume "3 < j \<and> j + 1 < length ''a:b:90''"
    then have "j = 4" by simp
    then show "''a:b:90'' ! j \<noteq> CHR '':''" by simp
  qed
  have last': "\<forall>j. 1 < j \<and> j + 1 < length ''a:1e400'' \<longrightarrow> ''a:1e400'' ! j \<noteq> CHR '':''"
  proof (intro allI impI)
    fix j :: nat assume "1 < j \<and> j + 1 < length ''a:1e400''"
    then have "j = 2 \<or> j = 3 \<or> j = 4 \<or> j = 5" by auto
    then show "''a:1e400'' ! j \<noteq> CHR '':''" by auto
  qed
  have first: "matchScore ''a:b:90'' = Some (''a:b'', ''90'')
     \<and> (\<exists>m. scores \<lparr>urls = Some [JStr ''https://example.com''], onlyAudits = None,
          scores = Some [(''a:b'', Finite 90)], showAudits = None, extendedInfo = None,
          allAudits = None\<rparr> = Some m \<and> map_of m ''a:b'' = Some (Finite 90))"
    using scores_split_at_last_colon [where
        a = "\<lparr>argv_config = JUndefined, argv_url = JStr ''https://example.com'',
              argv_audits = JUndefined, argv_scores = JStr ''a:b:90'',
              argv_showaudits = JUndefined\<rparr>"
        and s = "''a:b:90''" and t = "''a:b:90''" and pre = "[]" and post = "[]" and i = 3
        and readConfig = "\<lambda>file. Inl SystemError", OF _ _ getConfig_abc splitOn_abc _ _ _ _ last]
    by (simp add: isLineTerminator_def StringToNumber_90)
  have second: "matchScore ''a:1e400'' = Some (''a'', ''1e400'')
     \<and> (\<exists>m. scores \<lparr>urls = Some [JStr ''https://example.com''], onlyAudits = None,
          scores = Some [(''a'', PosInfinity)], showAudits = None, extendedInfo = None,
          allAudits = None\<rparr> = Some m \<and> map_of m ''a'' = Some PosInfinity)"
    using scores_split_at_last_colon [where
        a = "\<lparr>argv_config = JUndefined, argv_url = JStr ''https://example.com'',
              argv_audits = JUndefined, argv_scores = JStr ''a:1e400'',
              argv_showaudits = JUndefined\<rparr>"
        and s = "''a:1e400''" and t = "''a:1e400''" and pre = "[]" and post = "[]" and i = 1
        and readConfig = "\<lambda>file. Inl SystemError",
        OF _ _ getConfig_a1e400 splitOn_a1e400 _ _ _ _ last']
    by (simp add: isLineTerminator_def StringToNumber_1e400)
  show ?thesis using first second by simp
qed

theorem scores_first_colon_counterexample:
  "getConfig (\<lambda>file. Inl SystemError)
     \<lparr>argv_config = JUndefined, argv_url = JStr ''https://example.com'',
      argv_audits = JUndefined, argv_scores = JStr ''a:b:90'', argv_showaudits = JUndefined\<rparr>
   = Inr \<lparr>urls = Some [JStr ''https://example.com''], onlyAudits = None,
          scores = Some [(''a:b'', Finite 90)], showAudits = None, extendedInfo = None,
          allAudits = None\<rparr>
   \<and> map_of [(''a:b'', Finite 90)] ''a'' = None"
  using getConfig_abc by simp

section \<open>The scores section of scan\<close>

lemma checkScores_acc:
  assumes "\<forall>(k, m) \<in> set sc. getProp cats k = Own (cat k)"
  shows "checkScores cats sc (acc, fl) =
     Inr (acc @
          map (\<lambda>(k, m).
                \<lparr>row_result =
                   (if js_ge (js_mul (ToNumber (category_score (cat k))) (Finite 100)) m
                    then Tick else Cross),
                 row_category = JStr (category_title (cat k)),
                 row_minScore = m,
                 row_score = js_mul (ToNumber (category_score (cat k))) (Finite 100)\<rparr>)
            (filter (\<lambda>(k, m). truthy_num m) sc),
          fl \<or> (\<exists>(k, m) \<in> set sc. truthy_num m
                  \<and> \<not> js_ge (js_mul (ToNumber (category_score (cat k))) (Finite 100)) m))"
  using assms
proof (induction sc arbitrary: acc fl)
  case Nil
  then show ?case by simp
next
  case (Cons p sc)
  obtain k m where p: "p = (k, m)" by (cases p)
  have own: "getProp cats k = Own (cat k)"
    using Cons.prems p by simp
  have rest: "\<forall>(k, m) \<in> set sc. getProp cats k = Own (cat k)"
    using Cons.prems by simp
  show ?case
    unfolding p
    by (simp add: own categoryFields_def Let_def Cons.IH [OF rest])
qed

lemma validateCategories_own:
  assumes "scores opts = Some sc" and "\<forall>(k, m) \<in> set sc. getProp cats k = Own (cat k)"
  shows "validateCategories cats opts = Inr ()"
proof -
  have "\<forall>k \<in> set (map fst sc). getProp cats k \<noteq> Undefined"
    using assms(2) by auto
  then have "find (\<lambda>k. getProp cats k = Undefined) (map fst sc) = None"
    by (simp add: find_None_iff)
  then show ?thesis
    using assms(1) by (simp add: validateCategories_def validateCategoriesLoop_find Object_keys_def)
qed

text \<open>
  What the audits section prints and whether it finds a failed audit do not depend on
  what was printed before it or on the flag it starts with: it appends, and it only
  raises the flag.
\<close>

lemma checkAudits_shift:
  "checkAudits as opts refs (out, tbl, f) =
     map_sum id (\<lambda>(ev, t, g). (out @ ev, tbl @ t, f \<or> g))
       (checkAudits as opts refs ([], [], False))"
proof (induction refs arbitrary: out tbl f)
  case Nil
  then show ?case by simp
next
  case (Cons r refs)
  show ?case
  proof (cases "auditOf as (auditRef_id r)")
    case None
    then show ?thesis by simp
  next
    case (Some audit)
    define hf where "hf = (auditPassedStatus audit \<noteq> 2 \<and> auditPassedStatus audit \<noteq> 1)"
    define gl where "gl = (if auditPassedStatus audit = 2 then QuestionMarkPrefix
                           else if auditPassedStatus audit = 1 then Tick else Cross)"
    define R where "R = checkAudits as opts refs ([], [], False)"
    show ?thesis
    proof (cases "hf \<or> truthyFlag (extendedInfo opts)")
      case True
      define X where "X = [LogAuditResult gl (audit_id audit), PrettyJson audit,
                           Linebreak, Linebreak]"
      have l: "checkAudits as opts (r # refs) (out, tbl, f)
                 = checkAudits as opts refs (out @ X, tbl, if hf then True else f)"
        using Some True by (auto simp: Let_def hf_def gl_def X_def)
      have b: "checkAudits as opts (r # refs) ([], [], False)
                 = checkAudits as opts refs (X, [], if hf then True else False)"
        using Some True by (auto simp: Let_def hf_def gl_def X_def)
      show ?thesis
        unfolding l b
        unfolding Cons.IH [of "out @ X" tbl "if hf then True else f"]
          Cons.IH [of X "[]" "if hf then True else False"]
        unfolding R_def [symmetric]
        by (cases R) auto
    next
      case False
      define Y where "Y = [\<lparr>row_audit = audit_id audit, row_glyph = gl\<rparr>]"
      have l: "checkAudits as opts (r # refs) (out, tbl, f)
                 = checkAudits as opts refs (out, tbl @ Y, f)"
        using Some False by (auto simp: Let_def hf_def gl_def Y_def)
      have b: "checkAudits as opts (r # refs) ([], [], False)
                 = checkAudits as opts refs ([], Y, False)"
        using Some False by (auto simp: Let_def hf_def gl_def Y_def)
      show ?thesis
        unfolding l b
        unfolding Cons.IH [of out "tbl @ Y" f] Cons.IH [of "[]" Y False]
        unfolding R_def [symmetric]
        by (cases R) auto
    qed
  qed
qed

lemma checkCategories_shift:
  "checkCategories as opts cats (out, f) =
     map_sum id (\<lambda>(ev, g). (out @ ev, f \<or> g)) (checkCategories as opts cats ([], False))"
proof (induction cats arbitrary: out f)
  case Nil
  then show ?case by simp
next
  case (Cons p cats)
  obtain k c where p: "p = (k, c)" by (cases p)
  show ?case
  proof (cases "filterAudits c opts")
    case (Inl e)
    then show ?thesis unfolding p by simp
  next
    case (Inr refs)
    show ?thesis
    proof (cases "length refs > 0")
      case False
      have l: "checkCategories as opts ((k, c) # cats) (out, f)
                 = checkCategories as opts cats (out, f)"
        using Inr False by simp
      have b: "checkCategories as opts ((k, c) # cats) ([], False)
                 = checkCategories as opts cats ([], False)"
        using Inr False by simp
      show ?thesis unfolding p l b by (rule Cons.IH)
    next
      case True
      define S where "S = [SubHeadline (JStr (category_title c))]"
      define A where "A = checkAudits as opts refs ([], [], False)"
      have a1: "checkAudits as opts refs (out @ S, [], f)
                 = map_sum id (\<lambda>(ev, t, g). ((out @ S) @ ev, t, f \<or> g)) A"
        unfolding A_def using checkAudits_shift [of as opts refs "out @ S" "[]" f] by simp
      have a2: "checkAudits as opts refs (S, [], False)
                 = map_sum id (\<lambda>(ev, t, g). (S @ ev, t, g)) A"
        unfolding A_def using checkAudits_shift [of as opts refs S "[]" False] by simp
      show ?thesis
      proof (cases A)
        case (Inl e)
        then show ?thesis
          unfolding p using Inr True a1 a2 by (simp add: S_def)
      next
        case (Inr res)
        obtain ev t g where res: "res = (ev, t, g)" by (cases res)
        define T where "T = [Linebreak, LogAuditsTable t]"
        define C where "C = checkCategories as opts cats ([], False)"
        have l: "checkCategories as opts ((k, c) # cats) (out, f)
                   = checkCategories as opts cats (((out @ S) @ ev) @ T, f \<or> g)"
          using \<open>filterAudits c opts = Inr refs\<close> True a1 Inr res by (simp add: S_def T_def)
        have b: "checkCategories as opts ((k, c) # cats) ([], False)
                   = checkCategories as opts cats ((S @ ev) @ T, g)"
          using \<open>filterAudits c opts = Inr refs\<close> True a2 Inr res by (simp add: S_def T_def)
        show ?thesis
          unfolding p l b
          unfolding Cons.IH [of "((out @ S) @ ev) @ T" "f \<or> g"] Cons.IH [of "(S @ ev) @ T" g]
          unfolding C_def [symmetric]
          by (cases C) auto
      qed
    qed
  qed
qed

text \<open>
  C3. For options without \<open>showAudits\<close> whose \<open>scores\<close> have categories of the report as
  keys, the scores section of \<open>scan\<close> prints a table with a row exactly for the entries
  with a truthy minimum, in order, so an entry with a falsy minimum (0 or NaN) gives no
  row and does not touch the flag whatever the score of its category; the flag of the
  section is set iff for some entry with a truthy minimum
  \<open>category.score * 100 >= minScore\<close> is false, which for a score that is a number or
  \<open>null\<close> (not NaN) means that \<open>category.score * 100\<close>, the rounded product, is strictly
  below the minimum; and \<open>scan\<close> returns this table before the audits section and this
  flag or a failed audit.
\<close>

theorem scan_scores_section:
  assumes "showAudits opts \<noteq> Some True"
    and "scores opts = Some sc"
    and "\<forall>(k, m) \<in> set sc. getProp (categories res) k = Own (cat k)"
  shows "\<exists>rows flag.
       rows =
         map (\<lambda>(k, m).
                \<lparr>row_result =
                   (if js_ge (js_mul (ToNumber (category_score (cat k))) (Finite 100)) m
                    then Tick else Cross),
                 row_category = JStr (category_title (cat k)),
                 row_minScore = m,
                 row_score = js_mul (ToNumber (category_score (cat k))) (Finite 100)\<rparr>)
            (filter (\<lambda>(k, m). truthy_num m) sc)
     \<and> (flag \<longleftrightarrow>
          (\<exists>(k, m) \<in> set sc. truthy_num m
             \<and> \<not> js_ge (js_mul (ToNumber (category_score (cat k))) (Finite 100)) m))
     \<and> ((\<forall>(k, m) \<in> set sc. ToNumber (category_score (cat k)) \<noteq> NaN) \<longrightarrow>
          (flag \<longleftrightarrow>
            (\<exists>(k, m) \<in> set sc. truthy_num m
               \<and> js_lt (js_mul (ToNumber (category_score (cat k))) (Finite 100)) m)))
     \<and> checkScores (categories res) sc ([], False) = Inr (rows, flag)
     \<and> scoresSection (categories res) opts
         = Inr ([Headline ''scores'', Linebreak, LogScoresTable rows], flag)
     \<and> scan res opts =
         (case validateAudits (categories res) opts of
            Inl e \<Rightarrow> Inl e
          | Inr u \<Rightarrow>
              (case checkCategories (audits res) opts (categories res) ([], False) of
                 Inl e \<Rightarrow> Inl e
               | Inr (out, auditFailures) \<Rightarrow>
                   Inr ([Headline ''scores'', Linebreak, LogScoresTable rows, Headline ''audits'']
                          @ out,
                        flag \<or> auditFailures)))"
proof -
  define rows where "rows =
         map (\<lambda>(k, m).
                \<lparr>row_result =
                   (if js_ge (js_mul (ToNumber (category_score (cat k))) (Finite 100)) m
                    then Tick else Cross),
                 row_category = JStr (category_title (cat k)),
                 row_minScore = m,
                 row_score = js_mul (ToNumber (category_score (cat k))) (Finite 100)\<rparr>)
            (filter (\<lambda>(k, m). truthy_num m) sc)"
  define flag where "flag \<longleftrightarrow>
          (\<exists>(k, m) \<in> set sc. truthy_num m
             \<and> \<not> js_ge (js_mul (ToNumber (category_score (cat k))) (Finite 100)) m)"
  have loop: "checkScores (categories res) sc ([], False) = Inr (rows, flag)"
    using checkScores_acc [OF assms(3), where acc = "[]" and fl = False]
    by (simp add: rows_def flag_def)
  have sec: "scoresSection (categories res) opts
         = Inr ([Headline ''scores'', Linebreak, LogScoresTable rows], flag)"
    using assms(2) loop by (simp add: scoresSection_def)
  have vc: "validateCategories (categories res) opts = Inr ()"
    using assms(2,3) by (rule validateCategories_own)
  have lt: "flag \<longleftrightarrow>
            (\<exists>(k, m) \<in> set sc. truthy_num m
               \<and> js_lt (js_mul (ToNumber (category_score (cat k))) (Finite 100)) m)"
    if h: "\<forall>(k, m) \<in> set sc. ToNumber (category_score (cat k)) \<noteq> NaN"
  proof -
    have pt: "(\<not> js_ge (js_mul (ToNumber (category_score (cat k))) (Finite 100)) m)
          = js_lt (js_mul (ToNumber (category_score (cat k))) (Finite 100)) m"
      if "(k, m) \<in> set sc" and t: "truthy_num m" for k m
    proof -
      have "ToNumber (category_score (cat k)) \<noteq> NaN" using h that(1) by auto
      then have "js_mul (ToNumber (category_score (cat k))) (Finite 100) \<noteq> NaN"
        by (rule js_mul_100_not_NaN)
      moreover have "m \<noteq> NaN" using t by (rule truthy_num_not_NaN)
      ultimately show ?thesis by (rule js_ge_lt)
    qed
    show ?thesis unfolding flag_def using pt by blast
  qed
  have sc: "scan res opts =
         (case validateAudits (categories res) opts of
            Inl e \<Rightarrow> Inl e
          | Inr u \<Rightarrow>
              (case checkCategories (audits res) opts (categories res) ([], False) of
                 Inl e \<Rightarrow> Inl e
               | Inr (out, auditFailures) \<Rightarrow>
                   Inr ([Headline ''scores'', Linebreak, LogScoresTable rows, Headline ''audits'']
                          @ out,
                        flag \<or> auditFailures)))"
  proof (cases "validateAudits (categories res) opts")
    case (Inl e)
    then show ?thesis using assms(1) vc by (simp add: scan_def truthyFlag_def)
  next
    case (Inr u)
    define C where "C = checkCategories (audits res) opts (categories res) ([], False)"
    have "scan res opts
        = checkCategories (audits res) opts (categories res)
            ([Headline ''scores'', Linebreak, LogScoresTable rows] @ [Headline ''audits''], flag)"
      using assms(1) vc Inr sec by (simp add: scan_def truthyFlag_def)
    also have "\<dots> = map_sum id
          (\<lambda>(ev, g). (([Headline ''scores'', Linebreak, LogScoresTable rows] @ [Headline ''audits''])
                        @ ev, flag \<or> g)) C"
      unfolding C_def by (rule checkCategories_shift)
    finally show ?thesis
      using Inr unfolding C_def [symmetric] by (cases C) auto
  qed
  show ?thesis
  proof (intro exI [of _ rows] exI [of _ flag] conjI)
    show "rows =
         map (\<lambda>(k, m).
                \<lparr>row_result =
                   (if js_ge (js_mul (ToNumber (category_score (cat k))) (Finite 100)) m
                    then Tick else Cross),
                 row_category = JStr (category_title (cat k)),
                 row_minScore = m,
                 row_score = js_mul (ToNumber (category_score (cat k))) (Finite 100)\<rparr>)
            (filter (\<lambda>(k, m). truthy_num m) sc)"
      by (rule rows_def)
    show "flag \<longleftrightarrow>
          (\<exists>(k, m) \<in> set sc. truthy_num m
             \<and> \<not> js_ge (js_mul (ToNumber (category_score (cat k))) (Finite 100)) m)"
      by (rule flag_def)
    show "(\<forall>(k, m) \<in> set sc. ToNumber (category_score (cat k)) \<noteq> NaN) \<longrightarrow>
          (flag \<longleftrightarrow>
            (\<exists>(k, m) \<in> set sc. truthy_num m
               \<and> js_lt (js_mul (ToNumber (category_score (cat k))) (Finite 100)) m))"
      using lt by blast
  qed (rule loop, rule sec, rule sc)
qed

theorem scan_scores_section_witness:
  "scan
     \<lparr>categories =
        [(''perf'', \<lparr>category_title = ''Performance'',
                     category_score = JNum (Finite (5404319552844595 / 18014398509481984)),
                     auditRefs = []\<rparr>),
         (''seo'', \<lparr>category_title = ''SEO'', category_score = JNum (Finite 0.25),
                    auditRefs = []\<rparr>)],
      audits = []\<rparr>
     \<lparr>urls = Some [], onlyAudits = Some [],
      scores = Some [(''seo'', Finite 0), (''perf'', Finite 30)],
      showAudits = None, extendedInfo = Some False, allAudits = Some False\<rparr>
   = Inr ([Headline ''scores'', Linebreak,
           LogScoresTable
             [\<lparr>row_result = Tick, row_category = JStr ''Performance'',
               row_minScore = Finite 30, row_score = Finite 30\<rparr>],
           Headline ''audits''], False)
   \<and> scan
     \<lparr>categories =
        [(''perf'', \<lparr>category_title = ''Performance'',
                     category_score = JNum (Finite (5404319552844595 / 18014398509481984)),
                     auditRefs = []\<rparr>),
         (''seo'', \<lparr>category_title = ''SEO'', category_score = JNum (Finite 0.25),
                    auditRefs = []\<rparr>)],
      audits = []\<rparr>
     \<lparr>urls = Some [], onlyAudits = Some [],
      scores = Some [(''seo'', Finite 0), (''perf'', Finite 90)],
      showAudits = None, extendedInfo = Some False, allAudits = Some False\<rparr>
   = Inr ([Headline ''scores'', Linebreak,
           LogScoresTable
             [\<lparr>row_result = Cross, row_category = JStr ''Performance'',
               row_minScore = Finite 90, row_score = Finite 30\<rparr>],
           Headline ''audits''], True)"
  using
    scan_scores_section [where
      res = "\<lparr>categories =
          [(''perf'', \<lparr>category_title = ''Performance'',
                       category_score = JNum (Finite (5404319552844595 / 18014398509481984)),
                       auditRefs = []\<rparr>),
           (''seo'', \<lparr>category_title = ''SEO'', category_score = JNum (Finite 0.25),
                      auditRefs = []\<rparr>)],
        audits = []\<rparr>"
      and opts = "\<lparr>urls = Some [], onlyAudits = Some [],
        scores = Some [(''seo'', Finite 0), (''perf'', Finite 30)],
        showAudits = None, extendedInfo = Some False, allAudits = Some False\<rparr>"
      and sc = "[(''seo'', Finite 0), (''perf'', Finite 30)]"
      and cat = "\<lambda>k. if k = ''perf''
                 then \<lparr>category_title = ''Performance'',
                       category_score = JNum (Finite (5404319552844595 / 18014398509481984)),
                       auditRefs = []\<rparr>
                 else \<lparr>category_title = ''SEO'', category_score = JNum (Finite 0.25),
                       auditRefs = []\<rparr>"]
    scan_scores_section [where
      res = "\<lparr>categories =
          [(''perf'', \<lparr>category_title = ''Performance'',
                       category_score = JNum (Finite (5404319552844595 / 18014398509481984)),
                       auditRefs = []\<rparr>),
           (''seo'', \<lparr>category_title = ''SEO'', category_score = JNum (Finite 0.25),
                      auditRefs = []\<rparr>)],
        audits = []\<rparr>"
      and opts = "\<lparr>urls = Some [], onlyAudits = Some [],
        scores = Some [(''seo'', Finite 0), (''perf'', Finite 90)],
        showAudits = None, extendedInfo = Some False, allAudits = Some False\<rparr>"
      and sc = "[(''seo'', Finite 0), (''perf'', Finite 90)]"
      and cat = "\<lambda>k. if k = ''perf''
                 then \<lparr>category_title = ''Performance'',
                       category_score = JNum (Finite (5404319552844595 / 18014398509481984)),
                       auditRefs = []\<rparr>
                 else \<lparr>category_title = ''SEO'', category_score = JNum (Finite 0.25),
                       auditRefs = []\<rparr>"]
  by (auto simp: getProp_def validateAudits_def filterAudits_def round_defs)

section \<open>The showAudits view of scan\<close>

lemma auditOf_defined:
  "getProp as key \<noteq> Undefined \<Longrightarrow> \<exists>a. auditOf as key = Some a"
  by (cases "getProp as key") (simp_all add: auditOf_def)

lemma showAuditRefs_ok:
  "\<forall>r \<in> set refs. getProp as (auditRef_id r) \<noteq> Undefined \<Longrightarrow>
   \<exists>out'. showAuditRefs as refs out = Inr out'"
proof (induction refs arbitrary: out)
  case Nil
  then show ?case by simp
next
  case (Cons r refs)
  then obtain a where "auditOf as (auditRef_id r) = Some a"
    using auditOf_defined [of as "auditRef_id r"] by auto
  then show ?case using Cons by simp
qed

lemma showCategories_ok:
  "\<forall>(k, c) \<in> set cats. \<forall>r \<in> set (auditRefs c). getProp as (auditRef_id r) \<noteq> Undefined \<Longrightarrow>
   \<exists>out'. showCategories as cats out = Inr out'"
proof (induction cats arbitrary: out)
  case Nil
  then show ?case by simp
next
  case (Cons p cats)
  obtain k c where p: "p = (k, c)" by (cases p)
  have "\<forall>r \<in> set (auditRefs c). getProp as (auditRef_id r) \<noteq> Undefined"
    using Cons.prems p by simp
  then obtain out1 where
    "showAuditRefs as (auditRefs c) (out @ [Headline (category_title c)]) = Inr out1"
    using showAuditRefs_ok by blast
  moreover have "\<exists>out'. showCategories as cats out1 = Inr out'"
    using Cons by simp
  ultimately show ?case unfolding p by simp
qed

text \<open>
  C8. With \<open>showAudits\<close> true, and a report in which every audit reference of a category
  finds an audit, \<open>scan\<close> returns no failure and no error, and \<open>scores\<close> and
  \<open>onlyAudits\<close> play no part in the result: the validators are not run, so unknown ids in
  them change nothing.
\<close>

theorem scan_showAudits_no_failure:
  assumes "showAudits opts = Some True"
    and "\<forall>(k, c) \<in> set (categories res). \<forall>r \<in> set (auditRefs c).
           getProp (audits res) (auditRef_id r) \<noteq> Undefined"
  shows "(\<exists>out. scan res opts = Inr (out, False))
     \<and> scan res (opts\<lparr>scores := sc, onlyAudits := ids\<rparr>) = scan res opts"
proof -
  obtain out where "showCategories (audits res) (categories res) [] = Inr out"
    using showCategories_ok [OF assms(2)] by blast
  then show ?thesis
    using assms(1) by (simp add: scan_def truthyFlag_def)
qed

theorem scan_showAudits_no_failure_witness:
  "scan
     \<lparr>categories =
        [(''perf'', \<lparr>category_title = ''Performance'', category_score = JNum (Finite 0.5),
                     auditRefs = [\<lparr>auditRef_id = ''a''\<rparr>]\<rparr>)],
      audits =
        [(''a'', \<lparr>audit_id = JStr ''a'', audit_title = JStr ''t'', audit_description = JStr ''d'',
                  audit_score = JNum (Finite 0), scoreDisplayMode = JStr ''manual''\<rparr>)]\<rparr>
     \<lparr>urls = Some [], onlyAudits = Some [''zz''], scores = Some [(''bar'', Finite 50)],
      showAudits = Some True, extendedInfo = Some False, allAudits = Some False\<rparr>
   = Inr ([Headline ''Performance'', SubHeadline (JStr ''a''), LogUnderline (JStr ''t''),
           LogDescription True (JStr ''d'')], False)
   \<and> validateCategories
     [(''perf'', \<lparr>category_title = ''Performance'', category_score = JNum (Finite 0.5),
                  auditRefs = [\<lparr>auditRef_id = ''a''\<rparr>]\<rparr>)]
     \<lparr>urls = Some [], onlyAudits = Some [''zz''], scores = Some [(''bar'', Finite 50)],
      showAudits = Some True, extendedInfo = Some False, allAudits = Some False\<rparr>
   = Inl (Error ''Category <bar> is unknown'')
   \<and> validateAudits
     [(''perf'', \<lparr>category_title = ''Performance'', category_score = JNum (Finite 0.5),
                  auditRefs = [\<lparr>auditRef_id = ''a''\<rparr>]\<rparr>)]
     \<lparr>urls = Some [], onlyAudits = Some [''zz''], scores = Some [(''bar'', Finite 50)],
      showAudits = Some True, extendedInfo = Some False, allAudits = Some False\<rparr>
   = Inl (Error ''Audit <zz> is unknown'')"
  using scan_showAudits_no_failure [where
      res = "\<lparr>categories =
          [(''perf'', \<lparr>category_title = ''Performance'', category_score = JNum (Finite 0.5),
                       auditRefs = [\<lparr>auditRef_id = ''a''\<rparr>]\<rparr>)],
        audits =
          [(''a'', \<lparr>audit_id = JStr ''a'', audit_title = JStr ''t'',
                    audit_description = JStr ''d'', audit_score = JNum (Finite 0),
                    scoreDisplayMode = JStr ''manual''\<rparr>)]\<rparr>"
      and opts = "\<lparr>urls = Some [], onlyAudits = Some [''zz''], scores = Some [(''bar'', Finite 50)],
        showAudits = Some True, extendedInfo = Some False, allAudits = Some False\<rparr>"]
  by (simp add: scan_def truthyFlag_def auditOf_def getProp_def validateCategories_def
      validateAudits_def Object_keys_def objectPrototypeKeys_def)

end
